theory Spec2Isabelle
  imports Complex_Main "HOL-Library.Word"
begin

section \<open>Exceptions and results\<close>

text \<open>
  Both subsystems throw C++ exceptions. A member function is modelled as a function from
  the object's state to a pair: the outcome (\<open>Inl\<close> an exception, \<open>Inr\<close> the returned
  value) and the state of the object when control leaves the function. The state is kept
  on the exceptional path too, since a thrown exception does not undo the writes made
  before it.
\<close>

datatype error =
  Cerror string          \<comment> \<open>\<open>iptsd::common::cerror(msg)\<close>\<close>
  | Out_of_range         \<comment> \<open>\<open>std::array::at\<close> past the end\<close>
  | Division_by_zero     \<comment> \<open>\<open>% IPTS_BUFFERS\<close> with a zero ring depth (undefined in C++)\<close>
  | Narrowing_error      \<comment> \<open>\<open>gsl::narrow\<close> on a value the target type cannot hold\<close>

definition value_or :: "'a option \<Rightarrow> 'a \<Rightarrow> 'a" where
  "value_or v d = (case v of None \<Rightarrow> d | Some x \<Rightarrow> x)"

definition array_at :: "'a list \<Rightarrow> nat \<Rightarrow> error + 'a" where
  "array_at xs i = (if i < length xs then Inr (xs ! i) else Inl Out_of_range)"

section \<open>Device transport: \<open>src/ipts/control.cpp\<close>\<close>

subsection \<open>The kernel as seen through system calls\<close>

datatype ioctl_cmd =
  IPTS_IOCTL_GET_DEVICE_READY
  | IPTS_IOCTL_GET_DEVICE_INFO
  | IPTS_IOCTL_SEND_FEEDBACK
  | IPTS_IOCTL_GET_DOORBELL
  | IPTS_IOCTL_SEND_RESET

datatype syscall =
  Ioctl int ioctl_cmd    \<comment> \<open>\<open>ioctl(fd, cmd, arg)\<close>\<close>
  | Read int nat         \<comment> \<open>\<open>read(fd, buf, size)\<close>\<close>
  | Sleep nat            \<comment> \<open>\<open>sleep(seconds)\<close>\<close>

text \<open>
  What a system call gives back: its return value and, where the call takes an output
  argument, what the kernel stored there (\<open>None\<close>: nothing was stored and the variable
  keeps its initialiser).
\<close>

record reply =
  ret :: int
  out_ready :: "8 word option"
  out_doorbell :: "32 word option"
  out_info :: "8 word list option"

text \<open>
  The header \<open>ipts.h\<close> is not part of the sources at hand, so the ring depth
  \<open>IPTS_BUFFERS\<close> is a parameter. The kernel is a parameter as well: a function from
  the system calls issued so far (the last one being the call to answer) to the reply.
\<close>

record env =
  IPTS_BUFFERS :: nat
  kernel :: "syscall list \<Rightarrow> reply"

record ipts_control =
  info :: "8 word list"
  current_doorbell :: "32 word"
  files :: "int list"
  trace :: "syscall list"      \<comment> \<open>every system call issued through this object, oldest first\<close>

definition sys :: "env \<Rightarrow> syscall \<Rightarrow> ipts_control \<Rightarrow> reply \<times> ipts_control" where
  "sys E c s = (kernel E (trace s @ [c]), s\<lparr>trace := trace s @ [c]\<rparr>)"

subsection \<open>The member functions\<close>

text \<open>\<open>IptsControl::current\<close>: \<open>files.at(current_doorbell % IPTS_BUFFERS)\<close>.\<close>

definition current :: "env \<Rightarrow> ipts_control \<Rightarrow> error + int" where
  "current E s =
     (if IPTS_BUFFERS E = 0 then Inl Division_by_zero
      else array_at (files s) (unat (current_doorbell s) mod IPTS_BUFFERS E))"

text \<open>\<open>IptsControl::ready\<close>\<close>

definition ready :: "env \<Rightarrow> ipts_control \<Rightarrow> (error + bool) \<times> ipts_control" where
  "ready E s =
     (case current E s of
        Inl e \<Rightarrow> (Inl e, s)
      | Inr fd \<Rightarrow>
          (case sys E (Ioctl fd IPTS_IOCTL_GET_DEVICE_READY) s of
             (r, s') \<Rightarrow>
               if ret r = - 1 then (Inr False, s')
               else (Inr (0 < value_or (out_ready r) 0), s')))"

text \<open>
  \<open>IptsControl::wait_for_device\<close>: the loop \<open>for (int i = 0; i < 5; i++)\<close>, the first
  argument being the number of rounds left.
\<close>

fun wait_loop :: "nat \<Rightarrow> env \<Rightarrow> ipts_control \<Rightarrow> (error + unit) \<times> ipts_control" where
  "wait_loop 0 E s = (Inr (), s)"
| "wait_loop (Suc n) E s =
     (case ready E s of
        (Inl e, s') \<Rightarrow> (Inl e, s')
      | (Inr True, s') \<Rightarrow> (Inr (), s')
      | (Inr False, s') \<Rightarrow> wait_loop n E (snd (sys E (Sleep 1) s')))"

definition wait_for_device :: "env \<Rightarrow> ipts_control \<Rightarrow> (error + unit) \<times> ipts_control" where
  "wait_for_device E s = wait_loop 5 E s"

text \<open>\<open>IptsControl::get_device_info\<close>\<close>

definition get_device_info :: "env \<Rightarrow> ipts_control \<Rightarrow> (error + unit) \<times> ipts_control" where
  "get_device_info E s =
     (case wait_for_device E s of
        (Inl e, s1) \<Rightarrow> (Inl e, s1)
      | (Inr _, s1) \<Rightarrow>
          (case current E s1 of
             Inl e \<Rightarrow> (Inl e, s1)
           | Inr fd \<Rightarrow>
               (case sys E (Ioctl fd IPTS_IOCTL_GET_DEVICE_INFO) s1 of
                  (r, s2) \<Rightarrow>
                    let s3 = s2\<lparr>info := value_or (out_info r) (info s2)\<rparr>
                    in if ret r = - 1 then (Inl (Cerror ''Failed to get device info''), s3)
                       else (Inr (), s3))))"

text \<open>\<open>IptsControl::send_feedback(int file)\<close>\<close>

definition send_feedback_file :: "env \<Rightarrow> int \<Rightarrow> ipts_control \<Rightarrow> (error + unit) \<times> ipts_control" where
  "send_feedback_file E file s =
     (case wait_for_device E s of
        (Inl e, s1) \<Rightarrow> (Inl e, s1)
      | (Inr _, s1) \<Rightarrow>
          (case sys E (Ioctl file IPTS_IOCTL_SEND_FEEDBACK) s1 of
             (r, s2) \<Rightarrow>
               if ret r = - 1 then (Inl (Cerror ''Failed to send feedback''), s2)
               else (Inr (), s2)))"

text \<open>\<open>IptsControl::send_feedback()\<close>\<close>

definition send_feedback :: "env \<Rightarrow> ipts_control \<Rightarrow> (error + unit) \<times> ipts_control" where
  "send_feedback E s =
     (case current E s of
        Inl e \<Rightarrow> (Inl e, s)
      | Inr file \<Rightarrow>
          (case send_feedback_file E file s of
             (Inl e, s1) \<Rightarrow> (Inl e, s1)
           | (Inr _, s1) \<Rightarrow> (Inr (), s1\<lparr>current_doorbell := current_doorbell s1 + 1\<rparr>)))"

text \<open>
  \<open>IptsControl::flush\<close>: the loop \<open>for (int i = 0; i < IPTS_BUFFERS; i++)\<close> runs over
  the indices \<open>[0..<IPTS_BUFFERS]\<close>.
\<close>

fun flush_loop :: "nat list \<Rightarrow> env \<Rightarrow> ipts_control \<Rightarrow> (error + unit) \<times> ipts_control" where
  "flush_loop [] E s = (Inr (), s)"
| "flush_loop (i # is) E s =
     (case array_at (files s) i of
        Inl e \<Rightarrow> (Inl e, s)
      | Inr file \<Rightarrow>
          (case send_feedback_file E file s of
             (Inl e, s1) \<Rightarrow> (Inl e, s1)
           | (Inr _, s1) \<Rightarrow> flush_loop is E s1))"

definition flush :: "env \<Rightarrow> ipts_control \<Rightarrow> (error + unit) \<times> ipts_control" where
  "flush E s = flush_loop [0..<IPTS_BUFFERS E] E s"

text \<open>\<open>IptsControl::doorbell\<close>\<close>

definition doorbell :: "env \<Rightarrow> ipts_control \<Rightarrow> (error + 32 word) \<times> ipts_control" where
  "doorbell E s =
     (case wait_for_device E s of
        (Inl e, s1) \<Rightarrow> (Inl e, s1)
      | (Inr _, s1) \<Rightarrow>
          (case current E s1 of
             Inl e \<Rightarrow> (Inl e, s1)
           | Inr fd \<Rightarrow>
               (case sys E (Ioctl fd IPTS_IOCTL_GET_DOORBELL) s1 of
                  (r, s2) \<Rightarrow>
                    let db = value_or (out_doorbell r) 0
                    in if ret r = - 1 then (Inl (Cerror ''Failed to get doorbell''), s2)
                       else if db < current_doorbell s2 then
                         (case flush E s2 of
                            (Inl e, s3) \<Rightarrow> (Inl e, s3)
                          | (Inr _, s3) \<Rightarrow> (Inr db, s3\<lparr>current_doorbell := db\<rparr>))
                       else (Inr db, s2))))"

text \<open>\<open>IptsControl::read\<close>; the bytes stored in the caller's buffer are not part of the object.\<close>

definition read :: "env \<Rightarrow> nat \<Rightarrow> ipts_control \<Rightarrow> (error + int) \<times> ipts_control" where
  "read E len s =
     (case wait_for_device E s of
        (Inl e, s1) \<Rightarrow> (Inl e, s1)
      | (Inr _, s1) \<Rightarrow>
          (case current E s1 of
             Inl e \<Rightarrow> (Inl e, s1)
           | Inr fd \<Rightarrow>
               (case sys E (Read fd len) s1 of
                  (r, s2) \<Rightarrow>
                    if ret r = - 1 then (Inl (Cerror ''Failed to read from buffer''), s2)
                    else (Inr (ret r), s2))))"

text \<open>\<open>IptsControl::reset\<close>\<close>

definition reset :: "env \<Rightarrow> ipts_control \<Rightarrow> (error + unit) \<times> ipts_control" where
  "reset E s =
     (case wait_for_device E s of
        (Inl e, s1) \<Rightarrow> (Inl e, s1)
      | (Inr _, s1) \<Rightarrow>
          (case current E s1 of
             Inl e \<Rightarrow> (Inl e, s1)
           | Inr fd \<Rightarrow>
               (case sys E (Ioctl fd IPTS_IOCTL_SEND_RESET) s1 of
                  (r, s2) \<Rightarrow>
                    if ret r = - 1 then (Inl (Cerror ''Failed to reset IPTS''), s2)
                    else (Inr (), s2))))"

subsection \<open>Observing a call\<close>

text \<open>
  The system calls a member function issued: what the trace gained between entry and exit.
  The feedback acknowledgements among them, as the file descriptors they went to.
\<close>

definition issued :: "ipts_control \<Rightarrow> ipts_control \<Rightarrow> syscall list" where
  "issued s s' = drop (length (trace s)) (trace s')"

fun feedbacks :: "syscall list \<Rightarrow> int list" where
  "feedbacks [] = []"
| "feedbacks (Ioctl fd IPTS_IOCTL_SEND_FEEDBACK # cs) = fd # feedbacks cs"
| "feedbacks (c # cs) = feedbacks cs"

fun doorbell_query :: "syscall \<Rightarrow> bool" where
  "doorbell_query (Ioctl fd IPTS_IOCTL_GET_DOORBELL) = True"
| "doorbell_query _ = False"

text \<open>A ring of two buffers whose kernel is always ready and reports the doorbell \<open>hw\<close>.\<close>

definition ring2_env :: "32 word \<Rightarrow> env" where
  "ring2_env hw =
     \<lparr>IPTS_BUFFERS = 2,
      kernel = (\<lambda>tr. \<lparr>ret = 0, out_ready = Some 1, out_doorbell = Some hw, out_info = None\<rparr>)\<rparr>"

definition ring2_control :: ipts_control where
  "ring2_control = \<lparr>info = [], current_doorbell = 5, files = [10, 11], trace = []\<rparr>"

text \<open>
  A call is quiet when it leaves the counter and the descriptors alone and issues neither
  a feedback nor a doorbell query.
\<close>

definition quiet :: "ipts_control \<Rightarrow> ipts_control \<Rightarrow> bool" where
  "quiet s s' \<longleftrightarrow>
     current_doorbell s' = current_doorbell s \<and> files s' = files s \<and>
     (\<exists>tr. trace s' = trace s @ tr \<and> feedbacks tr = [] \<and> filter doorbell_query tr = [])"

section \<open>Touch device: \<open>TouchDevice\<close> of the daemon\<close>

subsection \<open>Output events\<close>

datatype ev_type = EV_SYN | EV_KEY | EV_ABS

datatype ev_code =
  SYN_REPORT | BTN_TOUCH | ABS_X | ABS_Y
  | ABS_MT_SLOT | ABS_MT_TRACKING_ID | ABS_MT_POSITION_X | ABS_MT_POSITION_Y
  | ABS_MT_ORIENTATION | ABS_MT_TOUCH_MAJOR | ABS_MT_TOUCH_MINOR

type_synonym event = "ev_type \<times> ev_code \<times> int"

subsection \<open>Contacts, configuration, platform\<close>

text \<open>
  \<open>contacts::Contact<T>\<close> is a template over the scalar type and its header is not among
  the sources; the fields are those the touch device reads. The scalar type stays a type
  parameter here, and \<open>f64\<close> arithmetic is a parameter of the model (see \<open>platform\<close>).
\<close>

record 'f contact =
  index :: "nat option"          \<comment> \<open>\<open>std::optional<usize>\<close>\<close>
  valid :: "bool option"
  stable :: "bool option"
  mean :: "'f \<times> 'f"             \<comment> \<open>\<open>Vector2<T>\<close>: x, y\<close>
  size_v :: "'f \<times> 'f"           \<comment> \<open>the field \<open>size\<close>\<close>
  orientation :: 'f

text \<open>The fields of \<open>core::Config\<close> that the member functions read after construction.\<close>

record config =
  invert_x :: bool
  invert_y :: bool
  touch_disable_on_palm :: bool

text \<open>
  The constants \<open>IPTS_MAX_X\<close>, \<open>IPTS_MAX_Y\<close> and \<open>IPTS_DIAGONAL\<close> come from a header
  that is not among the sources: they are parameters. The operations on scalars are
  fields of the same record, so that the member functions are written once for every
  scalar type \<open>T\<close> of \<open>Contact<T>\<close>; \<open>binary64_platform\<close> below gives them for \<open>f64\<close>.
  \<open>narrow_i32\<close> is \<open>gsl::narrow<i32>\<close> on a scalar, \<open>None\<close> where it throws.
\<close>

record 'f platform =
  IPTS_MAX_X :: int
  IPTS_MAX_Y :: int
  IPTS_DIAGONAL :: int
  one_minus :: "'f \<Rightarrow> 'f"          \<comment> \<open>\<open>1.0 - x\<close>\<close>
  times_int :: "'f \<Rightarrow> int \<Rightarrow> 'f"   \<comment> \<open>\<open>x * K\<close> for an integer constant \<open>K\<close>\<close>
  fround :: "'f \<Rightarrow> 'f"             \<comment> \<open>\<open>std::round\<close>\<close>
  narrow_i32 :: "'f \<Rightarrow> int option"
  max_coeff :: "'f \<times> 'f \<Rightarrow> 'f"     \<comment> \<open>\<open>Vector2::maxCoeff\<close>\<close>
  min_coeff :: "'f \<times> 'f \<Rightarrow> 'f"     \<comment> \<open>\<open>Vector2::minCoeff\<close>\<close>

subsection \<open>The object\<close>

text \<open>
  \<open>std::set<usize>\<close> is an ordered set: a strictly ascending list, which is the order
  its iterators traverse. \<open>usize\<close> is \<open>nat\<close>; the code does no arithmetic on indices,
  only the narrowing to \<open>i32\<close>, written out in \<open>narrow_usize\<close>.

  The field \<open>uinput\<close> stands for the \<open>UinputDevice\<close> behind \<open>m_uinput\<close>: the events it has
  received so far, oldest first.
\<close>

record touch_device =
  uinput :: "event list"
  m_config :: config
  m_current :: "nat list"
  m_last :: "nat list"
  m_lift :: "nat list"
  m_single_index :: nat
  m_enabled :: bool

text \<open>The member initialisers: what the object holds once the constructor has run.\<close>

definition TouchDevice :: "config \<Rightarrow> touch_device" where
  "TouchDevice cfg =
     \<lparr>uinput = [], m_config = cfg, m_current = [], m_last = [], m_lift = [],
      m_single_index = 0, m_enabled = True\<rparr>"

text \<open>
  Modelled from the spec: \<open>UinputDevice::emit\<close>, whose header \<open>uinput-device.hpp\<close> is not
  among the sources. The output sink accepts a stream of \<open>(type, code, value)\<close> events, so
  \<open>emit\<close> appends one event to the stream.
\<close>

definition emit :: "ev_type \<Rightarrow> ev_code \<Rightarrow> int \<Rightarrow> touch_device \<Rightarrow> touch_device" where
  "emit t c v s = s\<lparr>uinput := uinput s @ [(t, c, v)]\<rparr>"

fun emits :: "event list \<Rightarrow> touch_device \<Rightarrow> touch_device" where
  "emits [] s = s"
| "emits ((t, c, v) # es) s = emits es (emit t c v s)"

text \<open>\<open>gsl::narrow<i32>\<close> on a \<open>usize\<close>: throws unless the value fits.\<close>

definition narrow_usize :: "nat \<Rightarrow> error + int" where
  "narrow_usize i = (if i \<le> 2147483647 then Inr (int i) else Inl Narrowing_error)"

text \<open>\<open>gsl::narrow<i32>(std::round(v))\<close>\<close>

definition round_narrow :: "'f platform \<Rightarrow> 'f \<Rightarrow> error + int" where
  "round_narrow P v =
     (case narrow_i32 P (fround P v) of None \<Rightarrow> Inl Narrowing_error | Some i \<Rightarrow> Inr i)"

subsection \<open>Ordered sets\<close>

text \<open>\<open>std::set::insert\<close>\<close>

fun set_insert :: "nat \<Rightarrow> nat list \<Rightarrow> nat list" where
  "set_insert x [] = [x]"
| "set_insert x (y # ys) =
     (if x < y then x # y # ys else if x = y then y # ys else y # set_insert x ys)"

text \<open>\<open>std::set_difference\<close> on two sorted ranges.\<close>

fun set_difference :: "nat list \<Rightarrow> nat list \<Rightarrow> nat list" where
  "set_difference [] ys = []"
| "set_difference (x # xs) [] = x # xs"
| "set_difference (x # xs) (y # ys) =
     (if x < y then x # set_difference xs (y # ys)
      else if y < x then set_difference (x # xs) ys
      else set_difference xs ys)"

text \<open>Writing a range through \<open>std::inserter\<close>: each element is inserted into the set.\<close>

fun insert_all :: "nat list \<Rightarrow> nat list \<Rightarrow> nat list" where
  "insert_all [] acc = acc"
| "insert_all (x # xs) acc = insert_all xs (set_insert x acc)"

subsection \<open>The member functions\<close>

text \<open>\<open>TouchDevice::search_lifted\<close>; first its loop over the contacts.\<close>

fun current_indices :: "'f contact list \<Rightarrow> nat list \<Rightarrow> nat list" where
  "current_indices [] acc = acc"
| "current_indices (c # cs) acc =
     (case index c of
        None \<Rightarrow> current_indices cs acc
      | Some i \<Rightarrow> current_indices cs (set_insert i acc))"

definition search_lifted :: "'f contact list \<Rightarrow> touch_device \<Rightarrow> touch_device" where
  "search_lifted contacts s =
     (let s1 = s\<lparr>m_current := m_last s, m_last := m_current s\<rparr>;
          s2 = s1\<lparr>m_current := []\<rparr>;
          s3 = s2\<lparr>m_current := current_indices contacts (m_current s2)\<rparr>;
          s4 = s3\<lparr>m_lift := []\<rparr>
      in s4\<lparr>m_lift := insert_all (set_difference (m_last s4) (m_current s4)) (m_lift s4)\<rparr>)"

text \<open>\<open>TouchDevice::is_blocked\<close>\<close>

definition is_blocked :: "'f contact list \<Rightarrow> touch_device \<Rightarrow> bool" where
  "is_blocked contacts s =
     (if \<not> touch_disable_on_palm (m_config s) then False
      else list_ex (\<lambda>c. \<not> value_or (valid c) True) contacts)"

text \<open>\<open>TouchDevice::lift_multitouch\<close>\<close>

definition lift_multitouch :: "nat \<Rightarrow> touch_device \<Rightarrow> (error + unit) \<times> touch_device" where
  "lift_multitouch i s =
     (case narrow_usize i of
        Inl e \<Rightarrow> (Inl e, s)
      | Inr v \<Rightarrow> (Inr (), emit EV_ABS ABS_MT_TRACKING_ID (- 1) (emit EV_ABS ABS_MT_SLOT v s)))"

text \<open>
  \<open>TouchDevice::emit_multitouch\<close>. The seven values are computed, in the order of the
  source, before the first event is emitted.
\<close>

definition emit_multitouch ::
  "'f platform \<Rightarrow> 'f contact \<Rightarrow> touch_device \<Rightarrow> (error + unit) \<times> touch_device" where
  "emit_multitouch P contact s =
     (let sz = size_v contact;
          mean_x = (if invert_x (m_config s) then one_minus P (fst (mean contact))
                    else fst (mean contact));
          mean_y = (if invert_y (m_config s) then one_minus P (snd (mean contact))
                    else snd (mean contact));
          orient = (if invert_x (m_config s) \<noteq> invert_y (m_config s)
                    then one_minus P (orientation contact) else orientation contact)
      in case narrow_usize (value_or (index contact) 0) of
           Inl e \<Rightarrow> (Inl e, s)
         | Inr idx \<Rightarrow>
       (case round_narrow P (times_int P mean_x (IPTS_MAX_X P)) of
           Inl e \<Rightarrow> (Inl e, s)
         | Inr x \<Rightarrow>
       (case round_narrow P (times_int P mean_y (IPTS_MAX_Y P)) of
           Inl e \<Rightarrow> (Inl e, s)
         | Inr y \<Rightarrow>
       (case round_narrow P (times_int P orient 180) of
           Inl e \<Rightarrow> (Inl e, s)
         | Inr angle \<Rightarrow>
       (case round_narrow P (times_int P (max_coeff P sz) (IPTS_DIAGONAL P)) of
           Inl e \<Rightarrow> (Inl e, s)
         | Inr major \<Rightarrow>
       (case round_narrow P (times_int P (min_coeff P sz) (IPTS_DIAGONAL P)) of
           Inl e \<Rightarrow> (Inl e, s)
         | Inr minor \<Rightarrow>
             (Inr (),
              emits [(EV_ABS, ABS_MT_SLOT, idx), (EV_ABS, ABS_MT_TRACKING_ID, idx),
                     (EV_ABS, ABS_MT_POSITION_X, x), (EV_ABS, ABS_MT_POSITION_Y, y),
                     (EV_ABS, ABS_MT_ORIENTATION, angle), (EV_ABS, ABS_MT_TOUCH_MAJOR, major),
                     (EV_ABS, ABS_MT_TOUCH_MINOR, minor)] s)))))))"

text \<open>\<open>TouchDevice::process_multitouch\<close>: the loop over the contacts, then the one over \<open>m_lift\<close>.\<close>

fun multitouch_contacts ::
  "'f platform \<Rightarrow> 'f contact list \<Rightarrow> touch_device \<Rightarrow> (error + unit) \<times> touch_device" where
  "multitouch_contacts P [] s = (Inr (), s)"
| "multitouch_contacts P (c # cs) s =
     (if index c = None then multitouch_contacts P cs s
      else if \<not> value_or (stable c) True then multitouch_contacts P cs s
      else
        (case (if value_or (valid c) True then emit_multitouch P c s
               else lift_multitouch (value_or (index c) 0) s) of
           (Inl e, s') \<Rightarrow> (Inl e, s')
         | (Inr _, s') \<Rightarrow> multitouch_contacts P cs s'))"

fun lift_each :: "nat list \<Rightarrow> touch_device \<Rightarrow> (error + unit) \<times> touch_device" where
  "lift_each [] s = (Inr (), s)"
| "lift_each (i # is) s =
     (case lift_multitouch i s of
        (Inl e, s') \<Rightarrow> (Inl e, s')
      | (Inr _, s') \<Rightarrow> lift_each is s')"

definition process_multitouch ::
  "'f platform \<Rightarrow> 'f contact list \<Rightarrow> touch_device \<Rightarrow> (error + unit) \<times> touch_device" where
  "process_multitouch P contacts s =
     (case multitouch_contacts P contacts s of
        (Inl e, s') \<Rightarrow> (Inl e, s')
      | (Inr _, s') \<Rightarrow> lift_each (m_lift s') s')"

text \<open>\<open>TouchDevice::lift_singletouch\<close>\<close>

definition lift_singletouch :: "touch_device \<Rightarrow> touch_device" where
  "lift_singletouch s = emit EV_KEY BTN_TOUCH 0 s"

text \<open>\<open>TouchDevice::emit_singletouch\<close>\<close>

definition emit_singletouch ::
  "'f platform \<Rightarrow> 'f contact \<Rightarrow> touch_device \<Rightarrow> (error + unit) \<times> touch_device" where
  "emit_singletouch P contact s =
     (let mean_x = (if invert_x (m_config s) then one_minus P (fst (mean contact))
                    else fst (mean contact));
          mean_y = (if invert_y (m_config s) then one_minus P (snd (mean contact))
                    else snd (mean contact))
      in case round_narrow P (times_int P mean_x (IPTS_MAX_X P)) of
           Inl e \<Rightarrow> (Inl e, s)
         | Inr x \<Rightarrow>
       (case round_narrow P (times_int P mean_y (IPTS_MAX_Y P)) of
           Inl e \<Rightarrow> (Inl e, s)
         | Inr y \<Rightarrow>
             (Inr (), emits [(EV_KEY, BTN_TOUCH, 1), (EV_ABS, ABS_X, x), (EV_ABS, ABS_Y, y)] s)))"

text \<open>
  \<open>TouchDevice::process_singletouch\<close>. The first loop either returns from the function
  (\<open>True\<close>) or is left by \<open>break\<close> or by running out of contacts (\<open>False\<close>).
\<close>

fun singletouch_scan ::
  "'f platform \<Rightarrow> 'f contact list \<Rightarrow> touch_device \<Rightarrow> (error + bool) \<times> touch_device" where
  "singletouch_scan P [] s = (Inr False, s)"
| "singletouch_scan P (c # cs) s =
     (if index c \<noteq> Some (m_single_index s) then singletouch_scan P cs s
      else if \<not> m_enabled s \<or> \<not> value_or (valid c) True then (Inr False, s)
      else if \<not> value_or (stable c) True then (Inr True, s)
      else
        (case emit_singletouch P c s of
           (Inl e, s') \<Rightarrow> (Inl e, s')
         | (Inr _, s') \<Rightarrow> (Inr True, s')))"

fun singletouch_select :: "'f contact list \<Rightarrow> touch_device \<Rightarrow> touch_device" where
  "singletouch_select [] s = s"
| "singletouch_select (c # cs) s =
     (if index c = Some (m_single_index s) then singletouch_select cs s
      else if \<not> value_or (valid c) True then singletouch_select cs s
      else s\<lparr>m_single_index := value_or (index c) 0\<rparr>)"

definition process_singletouch ::
  "'f platform \<Rightarrow> 'f contact list \<Rightarrow> touch_device \<Rightarrow> (error + unit) \<times> touch_device" where
  "process_singletouch P contacts s =
     (let reset = (m_single_index s \<notin> set (m_lift s))
      in case (if \<not> reset then singletouch_scan P contacts s else (Inr False, s)) of
           (Inl e, s1) \<Rightarrow> (Inl e, s1)
         | (Inr True, s1) \<Rightarrow> (Inr (), s1)
         | (Inr False, s1) \<Rightarrow>
             (let s2 = lift_singletouch s1
              in if \<not> m_enabled s2 then (Inr (), s2)
                 else (Inr (), singletouch_select contacts s2)))"

text \<open>\<open>TouchDevice::lift_all\<close>\<close>

fun lift_all_each :: "nat list \<Rightarrow> touch_device \<Rightarrow> (error + unit) \<times> touch_device" where
  "lift_all_each [] s = (Inr (), s)"
| "lift_all_each (i # is) s =
     (case narrow_usize i of
        Inl e \<Rightarrow> (Inl e, s)
      | Inr v \<Rightarrow>
          (case lift_multitouch i (emit EV_ABS ABS_MT_SLOT v s) of
             (Inl e, s') \<Rightarrow> (Inl e, s')
           | (Inr _, s') \<Rightarrow> lift_all_each is s'))"

definition lift_all :: "touch_device \<Rightarrow> (error + unit) \<times> touch_device" where
  "lift_all s =
     (case lift_all_each (m_current s) s of
        (Inl e, s1) \<Rightarrow> (Inl e, s1)
      | (Inr _, s1) \<Rightarrow>
          (case lift_all_each (m_last s1) s1 of
             (Inl e, s2) \<Rightarrow> (Inl e, s2)
           | (Inr _, s2) \<Rightarrow> (Inr (), lift_singletouch s2)))"

text \<open>\<open>TouchDevice::sync\<close>\<close>

definition sync :: "touch_device \<Rightarrow> touch_device" where
  "sync s = emit EV_SYN SYN_REPORT 0 s"

text \<open>\<open>TouchDevice::update\<close>\<close>

definition update ::
  "'f platform \<Rightarrow> 'f contact list \<Rightarrow> touch_device \<Rightarrow> (error + unit) \<times> touch_device" where
  "update P contacts s =
     (if \<not> m_enabled s then (Inr (), s)
      else
        (let s1 = search_lifted contacts s
         in case (if is_blocked contacts s1 then lift_all s1
                  else (case process_multitouch P contacts s1 of
                          (Inl e, s2) \<Rightarrow> (Inl e, s2)
                        | (Inr _, s2) \<Rightarrow> process_singletouch P contacts s2)) of
              (Inl e, s3) \<Rightarrow> (Inl e, s3)
            | (Inr _, s3) \<Rightarrow> (Inr (), sync s3)))"

text \<open>\<open>TouchDevice::disable\<close>, \<open>enable\<close>, \<open>enabled\<close>, \<open>active\<close>\<close>

definition disable :: "touch_device \<Rightarrow> (error + unit) \<times> touch_device" where
  "disable s =
     (let s0 = s\<lparr>m_enabled := False\<rparr>
      in case lift_all s0 of
           (Inl e, s1) \<Rightarrow> (Inl e, s1)
         | (Inr _, s1) \<Rightarrow>
             (Inr (), (sync s1)\<lparr>m_current := [], m_last := [], m_lift := []\<rparr>))"

definition enable :: "touch_device \<Rightarrow> touch_device" where
  "enable s = s\<lparr>m_enabled := True\<rparr>"

definition enabled :: "touch_device \<Rightarrow> bool" where
  "enabled s = m_enabled s"

definition active :: "touch_device \<Rightarrow> bool" where
  "active s = (m_current s \<noteq> [])"

text \<open>A sequence of frames, one \<open>update\<close> each, stopping at the first exception.\<close>

fun update_frames ::
  "'f platform \<Rightarrow> 'f contact list list \<Rightarrow> touch_device \<Rightarrow> (error + unit) \<times> touch_device" where
  "update_frames P [] s = (Inr (), s)"
| "update_frames P (f # fs) s =
     (case update P f s of
        (Inl e, s') \<Rightarrow> (Inl e, s')
      | (Inr _, s') \<Rightarrow> update_frames P fs s')"

subsection \<open>Observing the event stream\<close>

text \<open>The events a call emitted: what the sink received between entry and exit.\<close>

definition emitted :: "touch_device \<Rightarrow> touch_device \<Rightarrow> event list" where
  "emitted s s' = drop (length (uinput s)) (uinput s')"

text \<open>
  The multi-touch protocol as its consumer reads it: \<open>ABS_MT_SLOT\<close> selects a slot, and
  \<open>ABS_MT_TRACKING_ID\<close> acts on the selected slot, \<open>-1\<close> releasing it and any other value
  reporting an active contact under that tracking id. \<open>mt_lifted\<close> lists the slots
  released (its first argument is the slot selected so far), \<open>mt_active\<close> the tracking ids
  reported active.
\<close>

fun mt_lifted :: "int option \<Rightarrow> event list \<Rightarrow> int list" where
  "mt_lifted slot [] = []"
| "mt_lifted slot ((EV_ABS, ABS_MT_SLOT, v) # es) = mt_lifted (Some v) es"
| "mt_lifted slot ((EV_ABS, ABS_MT_TRACKING_ID, v) # es) =
     (if v = - 1 then (case slot of None \<Rightarrow> [] | Some i \<Rightarrow> [i]) else []) @ mt_lifted slot es"
| "mt_lifted slot (e # es) = mt_lifted slot es"

fun mt_active :: "event list \<Rightarrow> int list" where
  "mt_active [] = []"
| "mt_active ((EV_ABS, ABS_MT_TRACKING_ID, v) # es) =
     (if v = - 1 then [] else [v]) @ mt_active es"
| "mt_active (e # es) = mt_active es"

text \<open>The slot selected once the events have been read.\<close>

fun mt_slot :: "int option \<Rightarrow> event list \<Rightarrow> int option" where
  "mt_slot slot [] = slot"
| "mt_slot slot ((EV_ABS, ABS_MT_SLOT, v) # es) = mt_slot (Some v) es"
| "mt_slot slot (e # es) = mt_slot slot es"

text \<open>The single-touch key events: \<open>BTN_TOUCH\<close> with 1 for down and 0 for a lift.\<close>

fun touch_keys :: "event list \<Rightarrow> int list" where
  "touch_keys [] = []"
| "touch_keys ((EV_KEY, BTN_TOUCH, v) # es) = v # touch_keys es"
| "touch_keys (e # es) = touch_keys es"

text \<open>The three events with which \<open>lift_all\<close> releases one slot.\<close>

definition lift_all_events :: "nat list \<Rightarrow> event list" where
  "lift_all_events is =
     concat (map (\<lambda>i. [(EV_ABS, ABS_MT_SLOT, int i), (EV_ABS, ABS_MT_SLOT, int i),
                       (EV_ABS, ABS_MT_TRACKING_ID, - 1)]) is)"

text \<open>The indices carried by a list of contacts.\<close>

definition indices :: "'f contact list \<Rightarrow> nat set" where
  "indices contacts = {i. \<exists>c \<in> set contacts. index c = Some i}"

text \<open>
  The indices of the contacts that the loop of \<open>process_multitouch\<close> reports as active,
  and of those it lifts at once: a contact with an index that is not unstable, valid in
  the first case and invalid in the second.
\<close>

definition reported_indices :: "'f contact list \<Rightarrow> nat set" where
  "reported_indices contacts =
     {i. \<exists>c \<in> set contacts. index c = Some i \<and> value_or (stable c) True \<and> value_or (valid c) True}"

definition rejected_indices :: "'f contact list \<Rightarrow> nat set" where
  "rejected_indices contacts =
     {i. \<exists>c \<in> set contacts. index c = Some i \<and> value_or (stable c) True \<and> \<not> value_or (valid c) True}"

subsection \<open>Binary64 arithmetic\<close>

text \<open>
  \<open>f64\<close> is the 64-bit floating-point type (its alias is declared in \<open>common/types.hpp\<close>,
  which is not among the sources): \<open>double\<close>, IEEE 754 binary64, in the default rounding
  mode. \<open>Finite v\<close> is the number \<open>v\<close>; the two zeros are
  not told apart, since the touch device hands its scalars only to \<open>1.0 - x\<close>, \<open>x * K\<close>,
  \<open>std::round\<close> and \<open>gsl::narrow\<close>, none of which lets the sign of a zero reach an emitted
  value. Arithmetic rounds the exact result to the nearest binary64 number, ties to the
  even significand (\<open>rne\<close>): a significand of 53 bits, the exponent of the leading bit
  between -1022 and 1023, subnormal numbers below, an infinity from \<open>2^1024\<close> on.
\<close>

datatype f64 = Finite real | PInf | NInf | NaN

definition binade :: "real \<Rightarrow> int" where
  "binade x = max \<lfloor>log 2 \<bar>x\<bar>\<rfloor> (- 1022)"

definition ulp :: "real \<Rightarrow> real" where
  "ulp x = 2 powi (binade x - 52)"

definition round_half_even :: "real \<Rightarrow> int" where
  "round_half_even x =
     (if x - of_int \<lfloor>x\<rfloor> < 1 / 2 then \<lfloor>x\<rfloor>
      else if 1 / 2 < x - of_int \<lfloor>x\<rfloor> then \<lfloor>x\<rfloor> + 1
      else if even \<lfloor>x\<rfloor> then \<lfloor>x\<rfloor> else \<lfloor>x\<rfloor> + 1)"

definition rne :: "real \<Rightarrow> f64" where
  "rne x =
     (if x = 0 then Finite 0
      else let r = of_int (round_half_even (x / ulp x)) * ulp x
           in if 2 powi 1024 \<le> \<bar>r\<bar> then (if 0 < x then PInf else NInf) else Finite r)"

text \<open>\<open>1.0 - x\<close>\<close>

fun f64_one_minus :: "f64 \<Rightarrow> f64" where
  "f64_one_minus (Finite v) = rne (1 - v)"
| "f64_one_minus PInf = NInf"
| "f64_one_minus NInf = PInf"
| "f64_one_minus NaN = NaN"

text \<open>\<open>x * y\<close>\<close>

fun f64_mul :: "f64 \<Rightarrow> f64 \<Rightarrow> f64" where
  "f64_mul (Finite a) (Finite b) = rne (a * b)"
| "f64_mul NaN y = NaN"
| "f64_mul x NaN = NaN"
| "f64_mul (Finite a) PInf = (if a = 0 then NaN else if 0 < a then PInf else NInf)"
| "f64_mul (Finite a) NInf = (if a = 0 then NaN else if 0 < a then NInf else PInf)"
| "f64_mul PInf (Finite b) = (if b = 0 then NaN else if 0 < b then PInf else NInf)"
| "f64_mul NInf (Finite b) = (if b = 0 then NaN else if 0 < b then NInf else PInf)"
| "f64_mul PInf PInf = PInf"
| "f64_mul PInf NInf = NInf"
| "f64_mul NInf PInf = NInf"
| "f64_mul NInf NInf = PInf"

text \<open>\<open>x * K\<close> for an integer constant \<open>K\<close>, which is converted to \<open>double\<close> first.\<close>

definition f64_times_int :: "f64 \<Rightarrow> int \<Rightarrow> f64" where
  "f64_times_int x k = f64_mul x (rne (of_int k))"

text \<open>
  \<open>std::round\<close>: to the nearest integer, halfway cases away from zero. The result is a
  binary64 number whenever the argument is.
\<close>

definition c_round :: "real \<Rightarrow> real" where
  "c_round x = (if 0 \<le> x then of_int \<lfloor>x + 1 / 2\<rfloor> else of_int \<lceil>x - 1 / 2\<rceil>)"

fun f64_round :: "f64 \<Rightarrow> f64" where
  "f64_round (Finite v) = Finite (c_round v)"
| "f64_round x = x"

text \<open>
  \<open>gsl::narrow<i32>\<close> on a \<open>double\<close>: it throws unless converting the result back gives
  the argument again, that is, unless the argument is an integer that \<open>i32\<close> holds.
\<close>

fun f64_narrow_i32 :: "f64 \<Rightarrow> int option" where
  "f64_narrow_i32 (Finite v) =
     (if v = of_int \<lfloor>v\<rfloor> \<and> - 2147483648 \<le> v \<and> v \<le> 2147483647 then Some \<lfloor>v\<rfloor> else None)"
| "f64_narrow_i32 x = None"

text \<open>
  The platform with binary64 arithmetic. The three constants and \<open>maxCoeff\<close>, \<open>minCoeff\<close>
  of \<open>Vector2\<close> (declared in \<open>common/types.hpp\<close>, which is not among the sources) stay
  parameters.
\<close>

definition binary64_platform ::
  "int \<Rightarrow> int \<Rightarrow> int \<Rightarrow> (f64 \<times> f64 \<Rightarrow> f64) \<Rightarrow> (f64 \<times> f64 \<Rightarrow> f64) \<Rightarrow> f64 platform" where
  "binary64_platform mx my d maxc minc =
     \<lparr>IPTS_MAX_X = mx, IPTS_MAX_Y = my, IPTS_DIAGONAL = d,
      one_minus = f64_one_minus,
      times_int = f64_times_int,
      fround = f64_round,
      narrow_i32 = f64_narrow_i32,
      max_coeff = maxc,
      min_coeff = minc\<rparr>"

subsection \<open>Sample inputs\<close>

text \<open>
  The larger and the smaller of two finite components; the sample contacts have no
  other.
\<close>

fun finite_max :: "f64 \<times> f64 \<Rightarrow> f64" where
  "finite_max (Finite a, Finite b) = Finite (max a b)"
| "finite_max p = NaN"

fun finite_min :: "f64 \<times> f64 \<Rightarrow> f64" where
  "finite_min (Finite a, Finite b) = Finite (min a b)"
| "finite_min p = NaN"

definition sample_platform :: "f64 platform" where
  "sample_platform = binary64_platform 1000 1000 1000 finite_max finite_min"

definition sample_config :: config where
  "sample_config = \<lparr>invert_x = False, invert_y = False, touch_disable_on_palm = False\<rparr>"

definition palm_config :: config where
  "palm_config = \<lparr>invert_x = False, invert_y = False, touch_disable_on_palm = True\<rparr>"

definition invert_x_config :: config where
  "invert_x_config = \<lparr>invert_x = True, invert_y = False, touch_disable_on_palm = False\<rparr>"

text \<open>
  A contact with the given index and validity, \<open>stable\<close> absent, whose scalars are the
  binary64 numbers nearest to: mean \<open>(0.25, 0.6)\<close>, size \<open>(0.1, 0.05)\<close>, orientation \<open>0.25\<close>.
\<close>

definition sample_contact :: "nat option \<Rightarrow> bool option \<Rightarrow> f64 contact" where
  "sample_contact i v =
     \<lparr>index = i, valid = v, stable = None, mean = (rne (1 / 4), rne (3 / 5)),
      size_v = (rne (1 / 10), rne (1 / 20)), orientation = rne (1 / 4)\<rparr>"

text \<open>The contact 7 at \<open>x = 0.0045\<close>, where the product with 1000 is rounded to a halfway case.\<close>

definition halfway_contact :: "f64 contact" where
  "halfway_contact = (sample_contact (Some 7) None)\<lparr>mean := (rne (9 / 2000), rne (3 / 5))\<rparr>"

text \<open>The contact 3, present, valid and stable, and ten frames that carry it.\<close>

definition steady_contact :: "f64 contact" where
  "steady_contact = (sample_contact (Some 3) (Some True))\<lparr>stable := Some True\<rparr>"

definition steady_frames :: "f64 contact list list" where
  "steady_frames =
     [[steady_contact], [steady_contact], [steady_contact], [steady_contact], [steady_contact],
      [steady_contact], [steady_contact], [steady_contact], [steady_contact], [steady_contact]]"

text \<open>Frames and devices built from these contacts.\<close>

definition two_contacts :: "f64 contact list" where
  "two_contacts = [sample_contact (Some 1) None, sample_contact (Some 3) None]"

definition palm_frame :: "f64 contact list" where
  "palm_frame =
     [sample_contact (Some 3) None, sample_contact (Some 4) (Some False),
      sample_contact (Some 2) None]"

definition duplicate_frame :: "f64 contact list" where
  "duplicate_frame = [sample_contact (Some 3) None, sample_contact (Some 3) (Some False)]"

text \<open>A device with palm blocking after a first frame with the contacts 1 and 3.\<close>

definition palm_device :: touch_device where
  "palm_device = snd (update sample_platform two_contacts (TouchDevice palm_config))"


text \<open>A frame with the contact 5, and two continuations: an empty frame, and a frame whose
  only contact has no index.\<close>

definition frame_5 :: "f64 contact list" where
  "frame_5 = [sample_contact (Some 5) None]"

definition frame_no_index :: "f64 contact list" where
  "frame_no_index = [sample_contact None None]"

text \<open>A freshly constructed device after \<open>disable()\<close>.\<close>

definition disabled_device :: touch_device where
  "disabled_device = snd (disable (TouchDevice sample_config))"

section \<open>Properties of the device transport\<close>

subsection \<open>What each member function leaves alone\<close>

lemma feedbacks_append [simp]: "feedbacks (xs @ ys) = feedbacks xs @ feedbacks ys"
  by (induction xs rule: feedbacks.induct) simp_all

lemma quiet_refl: "quiet s s"
  by (simp add: quiet_def)

lemma quiet_trans: "quiet s s1 \<Longrightarrow> quiet s1 s2 \<Longrightarrow> quiet s s2"
  by (auto simp: quiet_def)

lemma quiet_sys:
  "feedbacks [c] = [] \<Longrightarrow> \<not> doorbell_query c \<Longrightarrow> quiet s (snd (sys E c s))"
  by (simp add: quiet_def sys_def)

lemma quiet_ready: "ready E s = (r, s') \<Longrightarrow> quiet s s'"
  by (auto simp: ready_def quiet_refl sys_def quiet_def split: sum.splits if_splits)

lemma quiet_wait_loop: "wait_loop n E s = (r, s') \<Longrightarrow> quiet s s'"
proof (induction n arbitrary: s)
  case 0
  then show ?case by (simp add: quiet_refl)
next
  case (Suc n)
  obtain b s1 where rd: "ready E s = (b, s1)" by (cases "ready E s")
  have q1: "quiet s s1" using rd by (rule quiet_ready)
  show ?case
  proof (cases b)
    case (Inl e)
    with Suc.prems rd q1 show ?thesis by simp
  next
    case (Inr ok)
    show ?thesis
    proof (cases ok)
      case True
      with Suc.prems rd Inr q1 show ?thesis by simp
    next
      case False
      with Suc.prems rd Inr have "wait_loop n E (snd (sys E (Sleep 1) s1)) = (r, s')" by simp
      then have "quiet (snd (sys E (Sleep 1) s1)) s'" by (rule Suc.IH)
      moreover have "quiet s1 (snd (sys E (Sleep 1) s1))" by (rule quiet_sys) simp_all
      ultimately show ?thesis using q1 by (blast intro: quiet_trans)
    qed
  qed
qed

lemma quiet_wait_for_device: "wait_for_device E s = (r, s') \<Longrightarrow> quiet s s'"
  unfolding wait_for_device_def by (rule quiet_wait_loop)

lemma wait_for_device_unfold:
  "wait_for_device E s =
     (case ready E s of
        (Inl e, s') \<Rightarrow> (Inl e, s')
      | (Inr True, s') \<Rightarrow> (Inr (), s')
      | (Inr False, s') \<Rightarrow> wait_loop 4 E (snd (sys E (Sleep 1) s')))"
proof -
  have "(5::nat) = Suc 4" by simp
  then show ?thesis unfolding wait_for_device_def by (simp only: wait_loop.simps)
qed

lemma send_feedback_file_frame:
  assumes "send_feedback_file E file s = (r, s')"
  shows "current_doorbell s' = current_doorbell s \<and> files s' = files s \<and>
         (\<exists>tr. trace s' = trace s @ tr \<and> filter doorbell_query tr = [] \<and>
               (r = Inr () \<longrightarrow> feedbacks tr = [file]))"
proof -
  obtain w s1 where w: "wait_for_device E s = (w, s1)" by (cases "wait_for_device E s")
  from quiet_wait_for_device [OF w] show ?thesis
    using assms w
    by (auto simp: send_feedback_file_def quiet_def sys_def split: sum.splits if_splits)
qed

lemma flush_loop_frame:
  "flush_loop is E s = (r, s') \<Longrightarrow>
     current_doorbell s' = current_doorbell s \<and> files s' = files s \<and>
     (\<exists>tr. trace s' = trace s @ tr \<and> filter doorbell_query tr = [] \<and>
           (r = Inr () \<longrightarrow>
              feedbacks tr = map (\<lambda>i. files s ! i) is \<and> (\<forall>i\<in>set is. i < length (files s))))"
proof (induction "is" arbitrary: s)
  case Nil
  then show ?case by simp
next
  case (Cons i "is")
  show ?case
  proof (cases "i < length (files s)")
    case False
    with Cons.prems show ?thesis by (auto simp: array_at_def)
  next
    case True
    obtain r1 s1 where f: "send_feedback_file E (files s ! i) s = (r1, s1)"
      by (cases "send_feedback_file E (files s ! i) s")
    note fr = send_feedback_file_frame [OF f]
    show ?thesis
    proof (cases r1)
      case (Inl e)
      with Cons.prems True f fr show ?thesis by (auto simp: array_at_def)
    next
      case (Inr u)
      with Cons.prems True f have "flush_loop is E s1 = (r, s')" by (simp add: array_at_def)
      from Cons.IH [OF this] fr Inr True show ?thesis by auto
    qed
  qed
qed

lemma flush_frame:
  "flush E s = (r, s') \<Longrightarrow>
     current_doorbell s' = current_doorbell s \<and> files s' = files s \<and>
     (\<exists>tr. trace s' = trace s @ tr \<and> filter doorbell_query tr = [] \<and>
           (r = Inr () \<longrightarrow>
              feedbacks tr = map (\<lambda>i. files s ! i) [0..<IPTS_BUFFERS E] \<and>
              IPTS_BUFFERS E \<le> length (files s)))"
  unfolding flush_def
  by (drule flush_loop_frame) (auto simp: not_less [symmetric] simp del: not_less)

lemma get_device_info_frame:
  assumes "get_device_info E s = (r, s')"
  shows "current_doorbell s' = current_doorbell s"
proof -
  obtain w s1 where w: "wait_for_device E s = (w, s1)" by (cases "wait_for_device E s")
  from quiet_wait_for_device [OF w] assms w show ?thesis
    by (auto simp: get_device_info_def quiet_def sys_def Let_def split: sum.splits if_splits)
qed

lemma read_frame:
  assumes "read E len s = (r, s')"
  shows "current_doorbell s' = current_doorbell s"
proof -
  obtain w s1 where w: "wait_for_device E s = (w, s1)" by (cases "wait_for_device E s")
  from quiet_wait_for_device [OF w] assms w show ?thesis
    by (auto simp: read_def quiet_def sys_def split: sum.splits if_splits)
qed

lemma reset_frame:
  assumes "reset E s = (r, s')"
  shows "current_doorbell s' = current_doorbell s"
proof -
  obtain w s1 where w: "wait_for_device E s = (w, s1)" by (cases "wait_for_device E s")
  from quiet_wait_for_device [OF w] assms w show ?thesis
    by (auto simp: reset_def quiet_def sys_def split: sum.splits if_splits)
qed

lemma send_feedback_effect:
  assumes "send_feedback E s = (r, s')"
  shows "(r = Inr () \<longrightarrow>
            current_doorbell s' = current_doorbell s + 1 \<and>
            (\<exists>fd. current E s = Inr fd \<and> feedbacks (issued s s') = [fd])) \<and>
         (r \<noteq> Inr () \<longrightarrow> current_doorbell s' = current_doorbell s)"
proof (cases "current E s")
  case (Inl e)
  with assms show ?thesis by (auto simp: send_feedback_def)
next
  case (Inr fd)
  obtain r1 s1 where f: "send_feedback_file E fd s = (r1, s1)"
    by (cases "send_feedback_file E fd s")
  from send_feedback_file_frame [OF f] assms Inr f show ?thesis
    by (cases r1) (auto simp: send_feedback_def issued_def)
qed

lemma doorbell_counter:
  assumes "doorbell E s = (r, s')"
  shows "current_doorbell s' \<le> current_doorbell s"
proof -
  obtain w s1 where w: "wait_for_device E s = (w, s1)" by (cases "wait_for_device E s")
  have q: "current_doorbell s1 = current_doorbell s"
    using quiet_wait_for_device [OF w] by (simp add: quiet_def)
  show ?thesis
  proof (cases "\<exists>fd. w = Inr () \<and> current E s1 = Inr fd")
    case False
    with assms w q show ?thesis by (auto simp: doorbell_def split: sum.splits)
  next
    case True
    then obtain fd where fd: "w = Inr ()" "current E s1 = Inr fd" by blast
    obtain fr s3 where fl: "flush E (snd (sys E (Ioctl fd IPTS_IOCTL_GET_DOORBELL) s1)) = (fr, s3)"
      by (cases "flush E (snd (sys E (Ioctl fd IPTS_IOCTL_GET_DOORBELL) s1))")
    from flush_frame [OF fl] have "current_doorbell s3 = current_doorbell s"
      using q by (simp add: sys_def)
    with assms w fd fl q show ?thesis
      by (auto simp: doorbell_def sys_def Let_def split: sum.splits if_splits)
  qed
qed

lemmas transport_eval =
  doorbell_def flush_def send_feedback_def send_feedback_file_def wait_for_device_unfold
  ready_def current_def array_at_def sys_def value_or_def ring2_env_def ring2_control_def
  issued_def upt_rec

subsection \<open>Doorbell resynchronisation\<close>

text \<open>
  Claim C2. Whenever \<open>doorbell\<close> returns, the value returned is the one the kernel stored
  in answer to the single \<open>GET_DOORBELL\<close> query of the call. If that value is below the
  stored counter, the feedbacks issued after the query are exactly one per buffer,
  \<open>files[0]\<close> to \<open>files[IPTS_BUFFERS - 1]\<close> in this order, and the counter becomes the
  hardware value; otherwise no feedback is issued and the counter is unchanged. No
  feedback precedes the query, and on return the counter does not exceed the hardware
  value.
\<close>

theorem doorbell_resync:
  assumes "doorbell E s = (Inr db, s')"
  shows "\<exists>pre fd post.
           issued s s' = pre @ Ioctl fd IPTS_IOCTL_GET_DOORBELL # post \<and>
           filter doorbell_query (pre @ post) = [] \<and>
           db = value_or (out_doorbell (kernel E (trace s @ pre @ [Ioctl fd IPTS_IOCTL_GET_DOORBELL]))) 0 \<and>
           feedbacks pre = [] \<and>
           (db < current_doorbell s \<longrightarrow>
              feedbacks post = map (\<lambda>i. files s ! i) [0..<IPTS_BUFFERS E] \<and>
              current_doorbell s' = db) \<and>
           (current_doorbell s \<le> db \<longrightarrow>
              feedbacks post = [] \<and> current_doorbell s' = current_doorbell s) \<and>
           current_doorbell s' \<le> db"
proof -
  obtain w s1 where w: "wait_for_device E s = (w, s1)" by (cases "wait_for_device E s")
  from quiet_wait_for_device [OF w] obtain pre where
    q: "current_doorbell s1 = current_doorbell s" "files s1 = files s"
       "trace s1 = trace s @ pre" "feedbacks pre = []" "filter doorbell_query pre = []"
    by (auto simp: quiet_def)
  from assms w obtain fd where fd: "current E s1 = Inr fd" and wok: "w = Inr ()"
    by (auto simp: doorbell_def split: sum.splits)
  define c where "c = Ioctl fd IPTS_IOCTL_GET_DOORBELL"
  define s2 where "s2 = s1\<lparr>trace := trace s1 @ [c]\<rparr>"
  define r where "r = kernel E (trace s1 @ [c])"
  have sysq: "sys E c s1 = (r, s2)" by (simp add: sys_def r_def s2_def)
  define hw where "hw = value_or (out_doorbell r) 0"
  have body: "(if ret r = - 1 then (Inl (Cerror ''Failed to get doorbell''), s2)
               else if hw < current_doorbell s2 then
                 (case flush E s2 of
                    (Inl e, s3) \<Rightarrow> (Inl e, s3)
                  | (Inr _, s3) \<Rightarrow> (Inr hw, s3\<lparr>current_doorbell := hw\<rparr>))
               else (Inr hw, s2)) = (Inr db, s')"
    unfolding hw_def using assms w wok fd sysq
    by (simp add: doorbell_def c_def Let_def split del: if_split cong: if_cong)
  have s2: "current_doorbell s2 = current_doorbell s" "files s2 = files s"
    "trace s2 = trace s @ pre @ [c]"
    using q by (simp_all add: s2_def)
  show ?thesis
  proof (cases "hw < current_doorbell s")
    case True
    obtain fr s3 where fl: "flush E s2 = (fr, s3)" by (cases "flush E s2")
    from body True s2 fl have frok: "fr = Inr ()" and db: "db = hw"
      and s': "s' = s3\<lparr>current_doorbell := hw\<rparr>"
      by (auto split: if_splits sum.splits)
    from flush_frame [OF fl] frok s2 obtain post where
      p: "trace s3 = trace s @ pre @ [c] @ post" "filter doorbell_query post = []"
         "feedbacks post = map (\<lambda>i. files s ! i) [0..<IPTS_BUFFERS E]"
      by auto
    have "issued s s' = pre @ c # post" using p s' by (simp add: issued_def)
    with p q True db s' show ?thesis
      unfolding c_def hw_def r_def by (intro exI [of _ pre] exI [of _ fd] exI [of _ post]) auto
  next
    case False
    with body s2 have db: "db = hw" and s': "s' = s2" by (auto split: if_splits)
    have "issued s s' = pre @ c # []" using s2 s' by (simp add: issued_def)
    with q False db s' s2 show ?thesis
      unfolding c_def hw_def r_def by (intro exI [of _ pre] exI [of _ fd] exI [of _ "[]"]) auto
  qed
qed

text \<open>
  On a ring of two buffers with the counter at 5: a hardware doorbell of 3 is a
  regression (one feedback per buffer, the counter becomes 3), one of 7 is not (no
  feedback, the counter stays).
\<close>

theorem doorbell_resync_witness:
  "(\<exists>s'. doorbell (ring2_env 3) ring2_control = (Inr 3, s') \<and>
         feedbacks (issued ring2_control s') = [10, 11] \<and> current_doorbell s' = 3) \<and>
   (\<exists>s'. doorbell (ring2_env 7) ring2_control = (Inr 7, s') \<and>
         feedbacks (issued ring2_control s') = [] \<and> current_doorbell s' = 5)"
proof -
  obtain r1 s1 where d1: "doorbell (ring2_env 3) ring2_control = (r1, s1)"
    by (cases "doorbell (ring2_env 3) ring2_control")
  then have r1: "r1 = Inr 3" by (simp add: transport_eval)
  obtain r2 s2 where d2: "doorbell (ring2_env 7) ring2_control = (r2, s2)"
    by (cases "doorbell (ring2_env 7) ring2_control")
  then have r2: "r2 = Inr 7" by (simp add: transport_eval)
  have lt: "(3 :: 32 word) < current_doorbell ring2_control"
    and le: "current_doorbell ring2_control \<le> (7 :: 32 word)"
    and fs: "map (\<lambda>i. files ring2_control ! i) [0..<IPTS_BUFFERS (ring2_env 3)] = [10, 11]"
    and cd: "current_doorbell ring2_control = 5"
    by (simp_all add: ring2_control_def ring2_env_def upt_rec)
  from doorbell_resync [OF d1 [unfolded r1]] lt fs
  have "feedbacks (issued ring2_control s1) = [10, 11] \<and> current_doorbell s1 = 3"
    by auto
  moreover from doorbell_resync [OF d2 [unfolded r2]] le cd
  have "feedbacks (issued ring2_control s2) = [] \<and> current_doorbell s2 = 5"
    by auto
  ultimately show ?thesis using d1 d2 r1 r2 by simp
qed

subsection \<open>Feedback and the counter\<close>

text \<open>
  Claim C10. \<open>flush\<close> never changes the stored doorbell counter, and when it returns it
  has sent exactly one feedback to each of the \<open>IPTS_BUFFERS\<close> descriptors, in order.
  \<open>send_feedback()\<close>, when it returns, has sent one feedback to the descriptor selected
  by the counter and has advanced the counter by one (in \<open>u32\<close> arithmetic, so modulo
  \<open>2^32\<close>); when it throws, the counter is unchanged. No other member function advances
  the counter: \<open>send_feedback(int)\<close>, \<open>wait_for_device\<close>, \<open>get_device_info\<close>, \<open>read\<close> and
  \<open>reset\<close> leave it as it is, and \<open>doorbell\<close> never raises it.
\<close>

theorem feedback_counter_effect:
  "(flush E s = (r1, s1) \<longrightarrow>
      current_doorbell s1 = current_doorbell s \<and>
      (r1 = Inr () \<longrightarrow>
         feedbacks (issued s s1) = map (\<lambda>i. files s ! i) [0..<IPTS_BUFFERS E] \<and>
         IPTS_BUFFERS E \<le> length (files s))) \<and>
   (send_feedback E s = (r2, s2) \<longrightarrow>
      (r2 = Inr () \<longrightarrow>
         current_doorbell s2 = current_doorbell s + 1 \<and>
         (\<exists>fd. current E s = Inr fd \<and> feedbacks (issued s s2) = [fd])) \<and>
      (r2 \<noteq> Inr () \<longrightarrow> current_doorbell s2 = current_doorbell s)) \<and>
   (send_feedback_file E file s = (r3, s3) \<longrightarrow> current_doorbell s3 = current_doorbell s) \<and>
   (wait_for_device E s = (r4, s4) \<longrightarrow> current_doorbell s4 = current_doorbell s) \<and>
   (get_device_info E s = (r5, s5) \<longrightarrow> current_doorbell s5 = current_doorbell s) \<and>
   (read E len s = (r6, s6) \<longrightarrow> current_doorbell s6 = current_doorbell s) \<and>
   (reset E s = (r7, s7) \<longrightarrow> current_doorbell s7 = current_doorbell s) \<and>
   (doorbell E s = (r8, s8) \<longrightarrow> current_doorbell s8 \<le> current_doorbell s)"
proof -
  have "flush E s = (r1, s1) \<Longrightarrow>
      current_doorbell s1 = current_doorbell s \<and>
      (r1 = Inr () \<longrightarrow>
         feedbacks (issued s s1) = map (\<lambda>i. files s ! i) [0..<IPTS_BUFFERS E] \<and>
         IPTS_BUFFERS E \<le> length (files s))"
    by (drule flush_frame) (auto simp: issued_def)
  moreover have "wait_for_device E s = (r4, s4) \<Longrightarrow> current_doorbell s4 = current_doorbell s"
    by (drule quiet_wait_for_device) (simp add: quiet_def)
  moreover have "send_feedback_file E file s = (r3, s3) \<Longrightarrow>
      current_doorbell s3 = current_doorbell s"
    by (drule send_feedback_file_frame) simp
  ultimately show ?thesis
    using send_feedback_effect [of E s r2 s2] get_device_info_frame [of E s r5 s5]
      read_frame [of E len s r6 s6] reset_frame [of E s r7 s7] doorbell_counter [of E s r8 s8]
    by blast
qed

text \<open>
  On the ring of two buffers with the counter at 5: \<open>flush\<close> acknowledges descriptors 10
  and 11 and leaves the counter at 5; \<open>send_feedback()\<close> acknowledges descriptor 11 and
  moves the counter to 6.
\<close>

theorem feedback_counter_effect_witness:
  "(\<exists>s1. flush (ring2_env 7) ring2_control = (Inr (), s1) \<and>
         current_doorbell s1 = 5 \<and> feedbacks (issued ring2_control s1) = [10, 11]) \<and>
   (\<exists>s2. send_feedback (ring2_env 7) ring2_control = (Inr (), s2) \<and>
         current_doorbell s2 = 6 \<and> feedbacks (issued ring2_control s2) = [11])"
proof -
  obtain r1 s1 where f: "flush (ring2_env 7) ring2_control = (r1, s1)"
    by (cases "flush (ring2_env 7) ring2_control")
  then have r1: "r1 = Inr ()" by (simp add: transport_eval)
  obtain r2 s2 where g: "send_feedback (ring2_env 7) ring2_control = (r2, s2)"
    by (cases "send_feedback (ring2_env 7) ring2_control")
  then have r2: "r2 = Inr ()" by (simp add: transport_eval)
  have fs: "map (\<lambda>i. files ring2_control ! i) [0..<IPTS_BUFFERS (ring2_env 7)] = [10, 11]"
    and cd: "current_doorbell ring2_control = 5"
    and cur: "current (ring2_env 7) ring2_control = Inr 11"
    by (simp_all add: transport_eval)
  from feedback_counter_effect [of "ring2_env 7" ring2_control r1 s1 r2 s2] f g r1 r2 fs cd cur
  show ?thesis by auto
qed

section \<open>Properties of the touch device\<close>

subsection \<open>Ordered sets\<close>

lemma set_set_insert [simp]: "set (set_insert x xs) = insert x (set xs)"
  by (induction xs) auto

lemma sorted_set_insert: "sorted_wrt (<) xs \<Longrightarrow> sorted_wrt (<) (set_insert x xs)"
  by (induction xs) auto

lemma set_insert_all [simp]: "set (insert_all xs acc) = set xs \<union> set acc"
  by (induction xs arbitrary: acc) auto

lemma sorted_insert_all: "sorted_wrt (<) acc \<Longrightarrow> sorted_wrt (<) (insert_all xs acc)"
  by (induction xs arbitrary: acc) (auto simp: sorted_set_insert)

lemma set_current_indices [simp]:
  "set (current_indices cs acc) = indices cs \<union> set acc"
  by (induction cs arbitrary: acc) (auto simp: indices_def split: option.splits)

lemma sorted_current_indices:
  "sorted_wrt (<) acc \<Longrightarrow> sorted_wrt (<) (current_indices cs acc)"
  by (induction cs arbitrary: acc) (auto simp: sorted_set_insert split: option.splits)

lemma set_set_difference:
  "sorted_wrt (<) xs \<Longrightarrow> sorted_wrt (<) ys \<Longrightarrow> set (set_difference xs ys) = set xs - set ys"
proof (induction xs ys rule: set_difference.induct)
  case (1 ys)
  then show ?case by simp
next
  case (2 x xs)
  then show ?case by simp
next
  case (3 x xs y ys)
  from "3.prems" have sx: "sorted_wrt (<) xs" and gx: "\<forall>a\<in>set xs. x < a"
    and sy: "sorted_wrt (<) ys" and gy: "\<forall>b\<in>set ys. y < b"
    by simp_all
  consider (lt) "x < y" | (gt) "y < x" | (eq) "x = y" by (rule linorder_cases)
  then show ?case
  proof cases
    case lt
    with "3.IH"(1) sx "3.prems"(2)
    have ih: "set (set_difference xs (y # ys)) = set xs - set (y # ys)" by simp
    have "x \<notin> set (y # ys)" using lt gy by auto
    with lt ih show ?thesis by auto
  next
    case gt
    then have nlt: "\<not> x < y" by simp
    with "3.IH"(2) gt "3.prems"(1) sy
    have ih: "set (set_difference (x # xs) ys) = set (x # xs) - set ys" by simp
    have "y \<notin> set (x # xs)" using gt gx by auto
    with gt nlt ih show ?thesis by auto
  next
    case eq
    then have n: "\<not> x < y" "\<not> y < x" by simp_all
    with "3.IH"(3) sx sy
    have ih: "set (set_difference xs ys) = set xs - set ys" by simp
    have "x \<notin> set xs" "x \<notin> set ys" using gx gy eq by auto
    with n eq ih show ?thesis by auto
  qed
qed


lemma count_list_sorted:
  "sorted_wrt (<) xs \<Longrightarrow> (i::nat) \<in> set xs \<Longrightarrow> count_list xs i = 1"
  by (induction xs) (auto simp: count_list_0_iff)

subsection \<open>Event streams\<close>

lemma mt_active_append [simp]: "mt_active (xs @ ys) = mt_active xs @ mt_active ys"
  by (induction xs rule: mt_active.induct) simp_all

lemma touch_keys_append [simp]: "touch_keys (xs @ ys) = touch_keys xs @ touch_keys ys"
  by (induction xs rule: touch_keys.induct) simp_all

lemma mt_lifted_append:
  "mt_lifted sl (xs @ ys) = mt_lifted sl xs @ mt_lifted (mt_slot sl xs) ys"
  by (induction sl xs rule: mt_lifted.induct) simp_all

lemma emitted_append: "uinput s' = uinput s @ evs \<Longrightarrow> emitted s s' = evs"
  by (simp add: emitted_def)


lemma lift_multitouch_eq:
  "lift_multitouch i s =
     (if i \<le> 2147483647
      then (Inr (), s\<lparr>uinput := uinput s @ [(EV_ABS, ABS_MT_SLOT, int i),
                                             (EV_ABS, ABS_MT_TRACKING_ID, - 1)]\<rparr>)
      else (Inl Narrowing_error, s))"
  by (simp add: lift_multitouch_def narrow_usize_def emit_def)

lemma lift_all_events_Cons:
  "lift_all_events (i # is) =
     [(EV_ABS, ABS_MT_SLOT, int i), (EV_ABS, ABS_MT_SLOT, int i),
      (EV_ABS, ABS_MT_TRACKING_ID, - 1)] @ lift_all_events is"
  by (simp add: lift_all_events_def)

lemma lift_all_events_Nil [simp]: "lift_all_events [] = []"
  by (simp add: lift_all_events_def)

lemma mt_active_lift_all_events [simp]: "mt_active (lift_all_events is) = []"
  by (induction "is") (simp_all add: lift_all_events_Cons)

lemma touch_keys_lift_all_events [simp]: "touch_keys (lift_all_events is) = []"
  by (induction "is") (simp_all add: lift_all_events_Cons)

lemma mt_lifted_lift_all_events [simp]: "mt_lifted sl (lift_all_events is) = map int is"
  by (induction "is" arbitrary: sl) (simp_all add: lift_all_events_Cons)

lemma lift_all_each_frame:
  "lift_all_each is s = (r, s') \<Longrightarrow>
     \<exists>evs. s' = s\<lparr>uinput := uinput s @ evs\<rparr> \<and> mt_active evs = [] \<and> touch_keys evs = [] \<and>
           (r = Inr () \<longrightarrow> evs = lift_all_events is)"
proof (induction "is" arbitrary: s)
  case Nil
  then show ?case by auto
next
  case (Cons i "is")
  show ?case
  proof (cases "i \<le> 2147483647")
    case False
    with Cons.prems show ?thesis
      by (intro exI [of _ "[]"]) (auto simp: narrow_usize_def)
  next
    case True
    define s1 where
      "s1 = s\<lparr>uinput := uinput s @ [(EV_ABS, ABS_MT_SLOT, int i), (EV_ABS, ABS_MT_SLOT, int i),
                                      (EV_ABS, ABS_MT_TRACKING_ID, - 1)]\<rparr>"
    from Cons.prems True have "lift_all_each is s1 = (r, s')"
      by (simp add: narrow_usize_def lift_multitouch_eq emit_def s1_def)
    from Cons.IH [OF this] obtain evs where
      e: "s' = s1\<lparr>uinput := uinput s1 @ evs\<rparr>" "mt_active evs = []" "touch_keys evs = []"
         "r = Inr () \<longrightarrow> evs = lift_all_events is"
      by blast
    let ?evs = "[(EV_ABS, ABS_MT_SLOT, int i), (EV_ABS, ABS_MT_SLOT, int i),
                 (EV_ABS, ABS_MT_TRACKING_ID, - 1)] @ evs"
    have "s' = s\<lparr>uinput := uinput s @ ?evs\<rparr>" using e(1) by (simp add: s1_def)
    moreover have "mt_active ?evs = []" "touch_keys ?evs = []" using e(2,3) by simp_all
    moreover have "r = Inr () \<longrightarrow> ?evs = lift_all_events (i # is)"
      using e(4) by (simp add: lift_all_events_Cons)
    ultimately show ?thesis by blast
  qed
qed

lemma lift_all_each_ok:
  "\<forall>i\<in>set is. i \<le> 2147483647 \<Longrightarrow>
     lift_all_each is s = (Inr (), s\<lparr>uinput := uinput s @ lift_all_events is\<rparr>)"
proof (induction "is" arbitrary: s)
  case Nil
  then show ?case by simp
next
  case (Cons i "is")
  then show ?case
    by (simp add: narrow_usize_def lift_multitouch_eq emit_def lift_all_events_Cons)
qed

lemma lift_all_frame:
  assumes "lift_all s = (r, s')"
  shows "\<exists>evs. s' = s\<lparr>uinput := uinput s @ evs\<rparr> \<and> mt_active evs = [] \<and>
           1 \<notin> set (touch_keys evs) \<and>
           (r = Inr () \<longrightarrow>
              evs = lift_all_events (m_current s) @ lift_all_events (m_last s) @
                    [(EV_KEY, BTN_TOUCH, 0)])"
proof -
  obtain r1 s1 where l1: "lift_all_each (m_current s) s = (r1, s1)"
    by (cases "lift_all_each (m_current s) s")
  from lift_all_each_frame [OF l1] obtain e1 where
    e1: "s1 = s\<lparr>uinput := uinput s @ e1\<rparr>" "mt_active e1 = []" "touch_keys e1 = []"
        "r1 = Inr () \<longrightarrow> e1 = lift_all_events (m_current s)"
    by blast
  show ?thesis
  proof (cases r1)
    case (Inl e)
    with assms l1 e1 show ?thesis by (auto simp: lift_all_def)
  next
    case (Inr u)
    obtain r2 s2 where l2: "lift_all_each (m_last s1) s1 = (r2, s2)"
      by (cases "lift_all_each (m_last s1) s1")
    from lift_all_each_frame [OF l2] obtain e2 where
      e2: "s2 = s1\<lparr>uinput := uinput s1 @ e2\<rparr>" "mt_active e2 = []" "touch_keys e2 = []"
          "r2 = Inr () \<longrightarrow> e2 = lift_all_events (m_last s1)"
      by blast
    have m: "m_last s1 = m_last s" using e1(1) by simp
    show ?thesis
    proof (cases r2)
      case (Inl e)
      with assms l1 l2 Inr have "r = Inl e" "s' = s2" by (simp_all add: lift_all_def)
      with e1 e2 show ?thesis by (intro exI [of _ "e1 @ e2"]) simp
    next
      case Inr2: (Inr u2)
      with assms l1 l2 Inr have "r = Inr ()" "s' = lift_singletouch s2"
        by (simp_all add: lift_all_def)
      with e1 e2 Inr Inr2 m show ?thesis
        by (intro exI [of _ "e1 @ e2 @ [(EV_KEY, BTN_TOUCH, 0)]"])
           (simp add: lift_singletouch_def emit_def)
    qed
  qed
qed

lemma lift_all_ok:
  assumes "\<forall>i\<in>set (m_current s) \<union> set (m_last s). i \<le> 2147483647"
  shows "lift_all s =
           (Inr (), s\<lparr>uinput := uinput s @ lift_all_events (m_current s) @
                                  lift_all_events (m_last s) @ [(EV_KEY, BTN_TOUCH, 0)]\<rparr>)"
  using assms by (simp add: lift_all_def lift_all_each_ok lift_singletouch_def emit_def)

lemma search_lifted_frame [simp]:
  "uinput (search_lifted cs s) = uinput s"
  "m_config (search_lifted cs s) = m_config s"
  "m_single_index (search_lifted cs s) = m_single_index s"
  "m_enabled (search_lifted cs s) = m_enabled s"
  "m_last (search_lifted cs s) = m_current s"
  "set (m_current (search_lifted cs s)) = indices cs"
  by (simp_all add: search_lifted_def Let_def)

lemma is_blocked_iff:
  "is_blocked cs s \<longleftrightarrow>
     touch_disable_on_palm (m_config s) \<and> (\<exists>c\<in>set cs. valid c = Some False)"
  by (auto simp: is_blocked_def list_ex_iff value_or_def split: option.splits)

lemma is_blocked_search_lifted [simp]: "is_blocked cs (search_lifted ds s) = is_blocked cs s"
  by (simp add: is_blocked_def)

subsection \<open>Binary64 on the sample scalars\<close>

lemma binade_eq:
  assumes "2 powi k \<le> \<bar>x\<bar>" "\<bar>x\<bar> < 2 powi (k + 1)" "- 1022 \<le> k"
  shows "binade x = k"
proof -
  have "(0::real) < 2 powi k" by simp
  with assms(1) have pos: "0 < \<bar>x\<bar>" by linarith
  have p: "(2::real) powr real_of_int j = 2 powi j" for j
    by (rule powr_real_of_int') simp_all
  have "(2::real) powr (real_of_int k + 1) = 2 powi (k + 1)"
    using p [of "k + 1"] by simp
  then have "\<lfloor>log 2 \<bar>x\<bar>\<rfloor> = k"
    using assms(1,2) pos p [of k] by (simp add: floor_log_eq_powr_iff)
  with assms(3) show ?thesis by (simp add: binade_def)
qed

text \<open>Rounding a number whose binade is known.\<close>

lemma rne_eval:
  assumes "2 powi k \<le> \<bar>x\<bar>" "\<bar>x\<bar> < 2 powi (k + 1)" "- 1022 \<le> k"
  shows "rne x =
     (let r = of_int (round_half_even (x / 2 powi (k - 52))) * 2 powi (k - 52)
      in if 2 powi 1024 \<le> \<bar>r\<bar> then (if 0 < x then PInf else NInf) else Finite r)"
proof -
  have "(0::real) < 2 powi k" by simp
  with assms(1) have "0 < \<bar>x\<bar>" by linarith
  then have "x \<noteq> 0" by simp
  then show ?thesis
    by (simp add: rne_def ulp_def binade_eq [OF assms])
qed

lemma rne_samples:
  "rne (1 / 4) = Finite (1 / 4)"
  "rne (3 / 5) = Finite (5404319552844595 / 9007199254740992)"
  "rne (1 / 10) = Finite (3602879701896397 / 36028797018963968)"
  "rne (1 / 20) = Finite (3602879701896397 / 72057594037927936)"
  "rne (9 / 2000) = Finite (5188146770730811 / 1152921504606846976)"
  "rne 1000 = Finite 1000"
  "rne 180 = Finite 180"
  "rne (3 / 4) = Finite (3 / 4)"
proof -
  show "rne (1 / 4) = Finite (1 / 4)"
    by (subst rne_eval [where k = "- 2"]) (simp_all add: round_half_even_def)
  show "rne (3 / 5) = Finite (5404319552844595 / 9007199254740992)"
    by (subst rne_eval [where k = "- 1"]) (simp_all add: round_half_even_def)
  show "rne (1 / 10) = Finite (3602879701896397 / 36028797018963968)"
    by (subst rne_eval [where k = "- 4"]) (simp_all add: round_half_even_def)
  show "rne (1 / 20) = Finite (3602879701896397 / 72057594037927936)"
    by (subst rne_eval [where k = "- 5"]) (simp_all add: round_half_even_def)
  show "rne (9 / 2000) = Finite (5188146770730811 / 1152921504606846976)"
    by (subst rne_eval [where k = "- 8"]) (simp_all add: round_half_even_def)
  show "rne 1000 = Finite 1000"
    by (subst rne_eval [where k = 9]) (simp_all add: round_half_even_def)
  show "rne 180 = Finite 180"
    by (subst rne_eval [where k = 7]) (simp_all add: round_half_even_def)
  show "rne (3 / 4) = Finite (3 / 4)"
    by (subst rne_eval [where k = "- 1"]) (simp_all add: round_half_even_def)
qed

lemma sample_products:
  "f64_times_int (Finite (1 / 4)) 1000 = Finite 250"
  "f64_times_int (Finite (5404319552844595 / 9007199254740992)) 1000 = Finite 600"
  "f64_times_int (Finite (1 / 4)) 180 = Finite 45"
  "f64_times_int (Finite (3602879701896397 / 36028797018963968)) 1000 = Finite 100"
  "f64_times_int (Finite (3602879701896397 / 72057594037927936)) 1000 = Finite 50"
  "f64_times_int (Finite (3 / 4)) 1000 = Finite 750"
  "f64_times_int (Finite (3 / 4)) 180 = Finite 135"
  "f64_times_int (Finite (5188146770730811 / 1152921504606846976)) 1000 = Finite (9 / 2)"
proof -
  have "rne (1 / 4 * 1000) = Finite 250"
    by (subst rne_eval [where k = 7]) (simp_all add: round_half_even_def)
  then show "f64_times_int (Finite (1 / 4)) 1000 = Finite 250"
    by (simp add: f64_times_int_def rne_samples)
  have "rne (5404319552844595 / 9007199254740992 * 1000) = Finite 600"
    by (subst rne_eval [where k = 9]) (simp_all add: round_half_even_def)
  then show "f64_times_int (Finite (5404319552844595 / 9007199254740992)) 1000 = Finite 600"
    by (simp add: f64_times_int_def rne_samples)
  have "rne (1 / 4 * 180) = Finite 45"
    by (subst rne_eval [where k = 5]) (simp_all add: round_half_even_def)
  then show "f64_times_int (Finite (1 / 4)) 180 = Finite 45"
    by (simp add: f64_times_int_def rne_samples)
  have "rne (3602879701896397 / 36028797018963968 * 1000) = Finite 100"
    by (subst rne_eval [where k = 6]) (simp_all add: round_half_even_def)
  then show "f64_times_int (Finite (3602879701896397 / 36028797018963968)) 1000 = Finite 100"
    by (simp add: f64_times_int_def rne_samples)
  have "rne (3602879701896397 / 72057594037927936 * 1000) = Finite 50"
    by (subst rne_eval [where k = 5]) (simp_all add: round_half_even_def)
  then show "f64_times_int (Finite (3602879701896397 / 72057594037927936)) 1000 = Finite 50"
    by (simp add: f64_times_int_def rne_samples)
  have "rne (3 / 4 * 1000) = Finite 750"
    by (subst rne_eval [where k = 9]) (simp_all add: round_half_even_def)
  then show "f64_times_int (Finite (3 / 4)) 1000 = Finite 750"
    by (simp add: f64_times_int_def rne_samples)
  have "rne (3 / 4 * 180) = Finite 135"
    by (subst rne_eval [where k = 7]) (simp_all add: round_half_even_def)
  then show "f64_times_int (Finite (3 / 4)) 180 = Finite 135"
    by (simp add: f64_times_int_def rne_samples)
  have "rne (5188146770730811 / 1152921504606846976 * 1000) = Finite (9 / 2)"
    by (subst rne_eval [where k = 2]) (simp_all add: round_half_even_def)
  then show "f64_times_int (Finite (5188146770730811 / 1152921504606846976)) 1000 = Finite (9 / 2)"
    by (simp add: f64_times_int_def rne_samples)
qed

lemma sample_one_minus: "f64_one_minus (Finite (1 / 4)) = Finite (3 / 4)"
proof -
  have "rne (1 - 1 / 4) = Finite (3 / 4)"
    by (subst rne_eval [where k = "- 1"]) (simp_all add: round_half_even_def)
  then show ?thesis by simp
qed

subsection \<open>Sample devices, evaluated\<close>

lemmas touch_eval =
  update_def search_lifted_def is_blocked_def process_multitouch_def process_singletouch_def
  lift_all_def disable_def sync_def emit_def lift_singletouch_def lift_multitouch_def
  emit_multitouch_def emit_singletouch_def narrow_usize_def round_narrow_def value_or_def
  TouchDevice_def Let_def emitted_def
  sample_platform_def binary64_platform_def sample_config_def palm_config_def invert_x_config_def
  sample_contact_def halfway_contact_def c_round_def two_contacts_def palm_frame_def
  duplicate_frame_def steady_contact_def steady_frames_def frame_5_def frame_no_index_def
  rne_samples sample_products sample_one_minus

lemma palm_device_eq:
  "palm_device =
     \<lparr>uinput =
        [(EV_ABS, ABS_MT_SLOT, 1), (EV_ABS, ABS_MT_TRACKING_ID, 1),
         (EV_ABS, ABS_MT_POSITION_X, 250), (EV_ABS, ABS_MT_POSITION_Y, 600),
         (EV_ABS, ABS_MT_ORIENTATION, 45), (EV_ABS, ABS_MT_TOUCH_MAJOR, 100),
         (EV_ABS, ABS_MT_TOUCH_MINOR, 50), (EV_ABS, ABS_MT_SLOT, 3),
         (EV_ABS, ABS_MT_TRACKING_ID, 3), (EV_ABS, ABS_MT_POSITION_X, 250),
         (EV_ABS, ABS_MT_POSITION_Y, 600), (EV_ABS, ABS_MT_ORIENTATION, 45),
         (EV_ABS, ABS_MT_TOUCH_MAJOR, 100), (EV_ABS, ABS_MT_TOUCH_MINOR, 50),
         (EV_KEY, BTN_TOUCH, 0), (EV_SYN, SYN_REPORT, 0)],
      m_config = palm_config, m_current = [1, 3], m_last = [], m_lift = [],
      m_single_index = 1, m_enabled = True\<rparr>"
  by (simp add: palm_device_def touch_eval)

lemma disabled_device_eq:
  "disabled_device =
     \<lparr>uinput = [(EV_KEY, BTN_TOUCH, 0), (EV_SYN, SYN_REPORT, 0)],
      m_config = sample_config, m_current = [], m_last = [], m_lift = [],
      m_single_index = 0, m_enabled = False\<rparr>"
  by (simp add: disabled_device_def touch_eval)

lemma indices_Cons:
  "indices (c # cs) = (case index c of None \<Rightarrow> indices cs | Some i \<Rightarrow> insert i (indices cs))"
  by (auto simp: indices_def split: option.splits)

lemma indices_Nil [simp]: "indices [] = {}"
  by (simp add: indices_def)

subsection \<open>The contact tracker\<close>

text \<open>
  Claim C3. \<open>search_lifted\<close>, run on a device whose current set is a well-formed ordered
  set, leaves the old current set in \<open>m_last\<close>, makes \<open>m_current\<close> the set of the indices
  carried by the incoming contacts, and makes \<open>m_lift\<close> the difference of the two, as an
  ascending list without repetition. So an index of the old current set that no incoming
  contact carries occurs exactly once in \<open>m_lift\<close>, and an index that an incoming contact
  carries does not occur in it, whatever the \<open>valid\<close> and \<open>stable\<close> fields say. The same
  holds from one frame \<open>cs\<close> to the next frame \<open>cs'\<close>.
\<close>

theorem search_lifted_sets:
  fixes cs cs' :: "'f contact list"
  assumes "sorted_wrt (<) (m_current s)"
  shows "m_last (search_lifted cs s) = m_current s \<and>
         set (m_current (search_lifted cs s)) = indices cs \<and>
         set (m_lift (search_lifted cs s)) =
           set (m_last (search_lifted cs s)) - set (m_current (search_lifted cs s)) \<and>
         sorted_wrt (<) (m_current (search_lifted cs s)) \<and>
         sorted_wrt (<) (m_lift (search_lifted cs s)) \<and>
         (\<forall>i. i \<in> set (m_current s) \<and> i \<notin> indices cs \<longrightarrow>
              count_list (m_lift (search_lifted cs s)) i = 1) \<and>
         (\<forall>i. i \<in> indices cs \<longrightarrow> i \<notin> set (m_lift (search_lifted cs s))) \<and>
         (\<forall>i. i \<in> indices cs \<and> i \<notin> indices cs' \<longrightarrow>
              count_list (m_lift (search_lifted cs' (search_lifted cs s))) i = 1) \<and>
         (\<forall>i. i \<in> indices cs \<and> i \<in> indices cs' \<longrightarrow>
              i \<notin> set (m_lift (search_lifted cs' (search_lifted cs s))))"
proof -
  have step: "m_last (search_lifted ds t) = m_current t \<and>
         set (m_current (search_lifted ds t)) = indices ds \<and>
         sorted_wrt (<) (m_current (search_lifted ds t)) \<and>
         sorted_wrt (<) (m_lift (search_lifted ds t)) \<and>
         (sorted_wrt (<) (m_current t) \<longrightarrow>
            set (m_lift (search_lifted ds t)) = set (m_current t) - indices ds)"
    for ds :: "'f contact list" and t
    by (simp add: search_lifted_def Let_def sorted_current_indices sorted_insert_all
        set_set_difference)
  have one: "count_list (m_lift (search_lifted ds t)) i = 1"
    if "sorted_wrt (<) (m_current t)" "i \<in> set (m_current t)" "i \<notin> indices ds"
    for ds :: "'f contact list" and t i
    using that step [of ds t] by (intro count_list_sorted) auto
  let ?s1 = "search_lifted cs s"
  from step [of cs s] assms
  have a1: "m_last ?s1 = m_current s" and a2: "set (m_current ?s1) = indices cs"
    and a3: "sorted_wrt (<) (m_current ?s1)" and a4: "sorted_wrt (<) (m_lift ?s1)"
    and a5: "set (m_lift ?s1) = set (m_current s) - indices cs"
    by blast+
  from step [of cs' ?s1] a3 a2
  have b5: "set (m_lift (search_lifted cs' ?s1)) = indices cs - indices cs'"
    by simp
  have c1: "set (m_lift ?s1) = set (m_last ?s1) - set (m_current ?s1)"
    using a1 a2 a5 by simp
  have c2: "\<forall>i. i \<in> set (m_current s) \<and> i \<notin> indices cs \<longrightarrow> count_list (m_lift ?s1) i = 1"
    using one [OF assms] by blast
  have c3: "\<forall>i. i \<in> indices cs \<longrightarrow> i \<notin> set (m_lift ?s1)"
    using a5 by blast
  have c4: "\<forall>i. i \<in> indices cs \<and> i \<notin> indices cs' \<longrightarrow>
              count_list (m_lift (search_lifted cs' ?s1)) i = 1"
    using one [OF a3, of _ cs'] a2 by blast
  have c5: "\<forall>i. i \<in> indices cs \<and> i \<in> indices cs' \<longrightarrow>
              i \<notin> set (m_lift (search_lifted cs' ?s1))"
    using b5 by blast
  from a1 a2 c1 a3 a4 c2 c3 c4 c5 show ?thesis by (intro conjI)
qed

text \<open>
  With the current set \<open>{1, 3}\<close> and a frame carrying 3, 4 and 2: 1 is lifted once, 3 is
  not; a following frame carrying 1 and 3 lifts 2 once and not 3.
\<close>

theorem search_lifted_sets_witness:
  "sorted_wrt (<) (m_current palm_device) \<and>
   m_current palm_device = [1, 3] \<and>
   indices palm_frame = {2, 3, 4} \<and>
   m_last (search_lifted palm_frame palm_device) = [1, 3] \<and>
   set (m_current (search_lifted palm_frame palm_device)) = {2, 3, 4} \<and>
   set (m_lift (search_lifted palm_frame palm_device)) = {1} \<and>
   count_list (m_lift (search_lifted palm_frame palm_device)) 1 = 1 \<and>
   3 \<notin> set (m_lift (search_lifted palm_frame palm_device)) \<and>
   count_list (m_lift (search_lifted two_contacts (search_lifted palm_frame palm_device))) 2 = 1 \<and>
   3 \<notin> set (m_lift (search_lifted two_contacts (search_lifted palm_frame palm_device)))"
proof -
  have h: "sorted_wrt (<) (m_current palm_device)" and c: "m_current palm_device = [1, 3]"
    by (simp_all add: palm_device_eq)
  have i: "indices palm_frame = {2, 3, 4}" "indices two_contacts = {1, 3}"
    by (auto simp: palm_frame_def two_contacts_def indices_Cons sample_contact_def)
  from search_lifted_sets [OF h, of palm_frame two_contacts] h c i show ?thesis
    by auto
qed

subsection \<open>A disabled device\<close>

text \<open>
  The statement of claim C1 fails: on a device that \<open>disable()\<close> has switched off,
  \<open>update\<close> with a frame carrying the indices 1 and 3 returns without emitting any event
  (so no lift and no sync), and the tracker has not run, \<open>m_current\<close> staying empty.
\<close>

theorem update_disabled_counterexample:
  "\<not> m_enabled disabled_device \<and>
   m_current disabled_device = [] \<and>
   indices two_contacts = {1, 3} \<and>
   fst (update sample_platform two_contacts disabled_device) = Inr () \<and>
   emitted disabled_device (snd (update sample_platform two_contacts disabled_device)) = [] \<and>
   m_current (snd (update sample_platform two_contacts disabled_device)) = []"
  by (simp add: disabled_device_eq update_def emitted_def two_contacts_def indices_Cons
      sample_contact_def insert_commute)

text \<open>
  Claim C1, amended. While the device is disabled, \<open>update\<close> returns at once: it emits no
  event and leaves the whole object, tracking sets included, as it was.
\<close>

theorem update_disabled:
  assumes "\<not> m_enabled s"
  shows "update P cs s = (Inr (), s)"
  using assms by (simp add: update_def)

theorem update_disabled_witness:
  "\<not> m_enabled disabled_device \<and>
   update sample_platform two_contacts disabled_device = (Inr (), disabled_device)"
proof -
  have h: "\<not> m_enabled disabled_device" by (simp add: disabled_device_eq)
  from update_disabled [OF h] h show ?thesis by simp
qed

subsection \<open>Palm blocking\<close>

text \<open>
  Claim C5. On an enabled device the frame is blocked exactly when palm blocking is
  configured and some contact has \<open>valid == false\<close> (an absent \<open>valid\<close> counts as true).
  A blocked \<open>update\<close> reports no contact as active, emits no single-touch down and
  leaves \<open>m_single_index\<close> alone; when it returns, it has emitted a multi-touch lift for
  every index of the current set and every index of the previous set (these are the
  slots its events release), then the single-touch lift, then one sync. It returns whenever all those indices fit \<open>i32\<close>
  (otherwise \<open>gsl::narrow\<close> throws).
\<close>

theorem update_palm_block:
  assumes "m_enabled s" and "update P cs s = (r, s')"
  shows "(is_blocked cs s \<longleftrightarrow>
            touch_disable_on_palm (m_config s) \<and> (\<exists>c\<in>set cs. valid c = Some False)) \<and>
         (is_blocked cs s \<longrightarrow>
            m_single_index s' = m_single_index s \<and>
            mt_active (emitted s s') = [] \<and>
            1 \<notin> set (touch_keys (emitted s s')) \<and>
            m_last s' = m_current s \<and> set (m_current s') = indices cs \<and>
            (r = Inr () \<longrightarrow>
               emitted s s' =
                 lift_all_events (m_current s') @ lift_all_events (m_last s') @
                 [(EV_KEY, BTN_TOUCH, 0), (EV_SYN, SYN_REPORT, 0)] \<and>
               mt_lifted sl (emitted s s') = map int (m_current s') @ map int (m_last s') \<and>
               touch_keys (emitted s s') = [0]) \<and>
            ((\<forall>i \<in> indices cs \<union> set (m_current s). i \<le> 2147483647) \<longrightarrow> r = Inr ()))"
proof (intro conjI impI)
  show "is_blocked cs s \<longleftrightarrow>
          touch_disable_on_palm (m_config s) \<and> (\<exists>c\<in>set cs. valid c = Some False)"
    by (rule is_blocked_iff)
next
  assume b: "is_blocked cs s"
  define s1 where "s1 = search_lifted cs s"
  obtain r1 s2 where l: "lift_all s1 = (r1, s2)" by (cases "lift_all s1")
  from lift_all_frame [OF l] obtain evs where
    e: "s2 = s1\<lparr>uinput := uinput s1 @ evs\<rparr>" "mt_active evs = []" "1 \<notin> set (touch_keys evs)"
       "r1 = Inr () \<longrightarrow>
          evs = lift_all_events (m_current s1) @ lift_all_events (m_last s1) @ [(EV_KEY, BTN_TOUCH, 0)]"
    by blast
  have u: "update P cs s = (case r1 of Inl e \<Rightarrow> (Inl e, s2) | Inr _ \<Rightarrow> (Inr (), sync s2))"
    using assms(1) b l by (simp add: update_def s1_def Let_def split: sum.splits)
  have s1: "uinput s1 = uinput s" "m_single_index s1 = m_single_index s"
    "m_last s1 = m_current s" "set (m_current s1) = indices cs"
    by (simp_all add: s1_def)
  have fr: "m_single_index s' = m_single_index s \<and> m_last s' = m_current s \<and>
            m_current s' = m_current s1 \<and> m_last s' = m_last s1 \<and>
            emitted s s' = (case r1 of Inl e \<Rightarrow> evs | Inr _ \<Rightarrow> evs @ [(EV_SYN, SYN_REPORT, 0)]) \<and>
            r = (case r1 of Inl e \<Rightarrow> Inl e | Inr _ \<Rightarrow> Inr ())"
    using u assms(2) e(1) s1
    by (cases r1) (auto simp: sync_def emit_def emitted_def)
  from fr show "m_single_index s' = m_single_index s" by simp
  from fr e(2) show "mt_active (emitted s s') = []" by (cases r1) simp_all
  from fr e(3) show "1 \<notin> set (touch_keys (emitted s s'))" by (cases r1) simp_all
  from fr show "m_last s' = m_current s" by simp
  from fr s1 show "set (m_current s') = indices cs" by simp
  {
    assume "r = Inr ()"
    with fr have "r1 = Inr ()" by (cases r1) simp_all
    with fr e(4) s1 show em: "emitted s s' =
                 lift_all_events (m_current s') @ lift_all_events (m_last s') @
                 [(EV_KEY, BTN_TOUCH, 0), (EV_SYN, SYN_REPORT, 0)]"
      by simp
    show "mt_lifted sl (emitted s s') = map int (m_current s') @ map int (m_last s')"
      unfolding em by (simp add: mt_lifted_append)
    show "touch_keys (emitted s s') = [0]"
      unfolding em by simp
  }
  {
    assume "\<forall>i \<in> indices cs \<union> set (m_current s). i \<le> 2147483647"
    then have "\<forall>i\<in>set (m_current s1) \<union> set (m_last s1). i \<le> 2147483647"
      using s1 by simp
    from lift_all_ok [OF this] l have "r1 = Inr ()" by simp
    with fr show "r = Inr ()" by simp
  }
qed

text \<open>
  After a frame with the contacts 1 and 3, a frame of three contacts (3, 4 and 2) of
  which one is invalid: lifts for 2, 3, 4 and for 1, 3, the single-touch lift, one sync.
\<close>

theorem update_palm_block_witness:
  "m_enabled palm_device \<and> is_blocked palm_frame palm_device \<and>
   fst (update sample_platform palm_frame palm_device) = Inr () \<and>
   m_single_index (snd (update sample_platform palm_frame palm_device)) = m_single_index palm_device \<and>
   mt_active (emitted palm_device (snd (update sample_platform palm_frame palm_device))) = [] \<and>
   emitted palm_device (snd (update sample_platform palm_frame palm_device)) =
     lift_all_events [2, 3, 4] @ lift_all_events [1, 3] @
     [(EV_KEY, BTN_TOUCH, 0), (EV_SYN, SYN_REPORT, 0)]"
proof -
  obtain r s' where u: "update sample_platform palm_frame palm_device = (r, s')"
    by (cases "update sample_platform palm_frame palm_device")
  have en: "m_enabled palm_device" by (simp add: palm_device_eq)
  have b: "is_blocked palm_frame palm_device"
    by (simp add: palm_device_eq is_blocked_def palm_frame_def sample_contact_def value_or_def
        palm_config_def)
  have small: "\<forall>i \<in> indices palm_frame \<union> set (m_current palm_device). i \<le> 2147483647"
    by (simp add: palm_device_eq palm_frame_def indices_Cons sample_contact_def)
  have cur: "m_current s' = [2, 3, 4]" "m_last s' = [1, 3]"
    using u by (auto simp: palm_device_eq touch_eval split: if_splits)
  from update_palm_block [OF en u] en b small cur u show ?thesis by simp
qed

subsection \<open>Disabling twice\<close>

text \<open>
  Claim C9. If \<open>disable()\<close> has returned, the tracking sets are empty, and a second
  \<open>disable()\<close> returns having emitted just the single-touch lift and the sync, no
  multi-touch lift among them, and changes nothing else in the object.
\<close>

theorem disable_twice:
  assumes "disable s = (Inr (), s1)"
  shows "disable s1 =
           (Inr (), s1\<lparr>uinput := uinput s1 @ [(EV_KEY, BTN_TOUCH, 0), (EV_SYN, SYN_REPORT, 0)]\<rparr>) \<and>
         mt_lifted sl [(EV_KEY, BTN_TOUCH, 0), (EV_SYN, SYN_REPORT, 0)] = [] \<and>
         m_current s1 = [] \<and> m_last s1 = [] \<and> m_lift s1 = [] \<and> \<not> m_enabled s1"
proof -
  obtain r0 t where l: "lift_all (s\<lparr>m_enabled := False\<rparr>) = (r0, t)"
    by (cases "lift_all (s\<lparr>m_enabled := False\<rparr>)")
  from lift_all_frame [OF l] have en: "\<not> m_enabled t" by auto
  from assms l have s1: "s1 = (sync t)\<lparr>m_current := [], m_last := [], m_lift := []\<rparr>"
    by (auto simp: disable_def Let_def split: sum.splits)
  then have f: "m_current s1 = []" "m_last s1 = []" "m_lift s1 = []" "\<not> m_enabled s1"
    using en by (simp_all add: sync_def emit_def)
  then have id: "s1\<lparr>m_enabled := False\<rparr> = s1" by simp
  have "lift_all s1 = (Inr (), s1\<lparr>uinput := uinput s1 @ [(EV_KEY, BTN_TOUCH, 0)]\<rparr>)"
    using lift_all_ok [of s1] f by simp
  then have "disable s1 =
      (Inr (), s1\<lparr>uinput := uinput s1 @ [(EV_KEY, BTN_TOUCH, 0), (EV_SYN, SYN_REPORT, 0)]\<rparr>)"
    using f by (simp add: disable_def id sync_def emit_def)
  with f show ?thesis by simp
qed

theorem disable_twice_witness:
  "disable palm_device =
     (Inr (), palm_device\<lparr>uinput := uinput palm_device @ lift_all_events [1, 3] @
                [(EV_KEY, BTN_TOUCH, 0), (EV_SYN, SYN_REPORT, 0)],
              m_current := [], m_enabled := False\<rparr>) \<and>
   disable (snd (disable palm_device)) =
     (Inr (), (snd (disable palm_device))\<lparr>uinput := uinput (snd (disable palm_device)) @
                [(EV_KEY, BTN_TOUCH, 0), (EV_SYN, SYN_REPORT, 0)]\<rparr>) \<and>
   m_current (snd (disable palm_device)) = []"
proof -
  have d: "disable palm_device =
     (Inr (), palm_device\<lparr>uinput := uinput palm_device @ lift_all_events [1, 3] @
                [(EV_KEY, BTN_TOUCH, 0), (EV_SYN, SYN_REPORT, 0)],
              m_current := [], m_enabled := False\<rparr>)"
    by (simp add: palm_device_eq touch_eval lift_all_events_def)
  from disable_twice [OF d] d show ?thesis by simp
qed

subsection \<open>The multi-touch pass\<close>

lemma emit_multitouch_cases:
  assumes "emit_multitouch P c s = (r, s')"
  shows "(r \<noteq> Inr () \<and> s' = s) \<or>
         (\<exists>x y angle major minor.
            r = Inr () \<and> value_or (index c) 0 \<le> 2147483647 \<and>
            round_narrow P (times_int P (if invert_x (m_config s) then one_minus P (fst (mean c))
                                         else fst (mean c)) (IPTS_MAX_X P)) = Inr x \<and>
            round_narrow P (times_int P (if invert_y (m_config s) then one_minus P (snd (mean c))
                                         else snd (mean c)) (IPTS_MAX_Y P)) = Inr y \<and>
            round_narrow P (times_int P (if invert_x (m_config s) \<noteq> invert_y (m_config s)
                                         then one_minus P (orientation c) else orientation c) 180)
              = Inr angle \<and>
            round_narrow P (times_int P (max_coeff P (size_v c)) (IPTS_DIAGONAL P)) = Inr major \<and>
            round_narrow P (times_int P (min_coeff P (size_v c)) (IPTS_DIAGONAL P)) = Inr minor \<and>
            s' = s\<lparr>uinput := uinput s @
                   [(EV_ABS, ABS_MT_SLOT, int (value_or (index c) 0)),
                    (EV_ABS, ABS_MT_TRACKING_ID, int (value_or (index c) 0)),
                    (EV_ABS, ABS_MT_POSITION_X, x), (EV_ABS, ABS_MT_POSITION_Y, y),
                    (EV_ABS, ABS_MT_ORIENTATION, angle), (EV_ABS, ABS_MT_TOUCH_MAJOR, major),
                    (EV_ABS, ABS_MT_TOUCH_MINOR, minor)]\<rparr>)"
  using assms
  by (auto simp: emit_multitouch_def Let_def emit_def narrow_usize_def
      split: sum.splits if_splits)


lemma reported_indices_Cons:
  "reported_indices (c # cs) =
     (case index c of
        None \<Rightarrow> {}
      | Some i \<Rightarrow> if value_or (stable c) True \<and> value_or (valid c) True then {i} else {})
     \<union> reported_indices cs"
  by (auto simp: reported_indices_def split: option.splits)

lemma rejected_indices_Cons:
  "rejected_indices (c # cs) =
     (case index c of
        None \<Rightarrow> {}
      | Some i \<Rightarrow> if value_or (stable c) True \<and> \<not> value_or (valid c) True then {i} else {})
     \<union> rejected_indices cs"
  by (auto simp: rejected_indices_def split: option.splits)

lemma multitouch_contacts_skip:
  assumes "index c = None \<or> \<not> value_or (stable c) True"
  shows "multitouch_contacts P (c # cs) s = multitouch_contacts P cs s"
  using assms by (simp only: multitouch_contacts.simps) presburger

lemma multitouch_contacts_emit:
  assumes "index c = Some i" "value_or (stable c) True" "value_or (valid c) True"
  shows "multitouch_contacts P (c # cs) s =
           (case emit_multitouch P c s of
              (Inl e, s') \<Rightarrow> (Inl e, s')
            | (Inr _, s') \<Rightarrow> multitouch_contacts P cs s')"
  using assms by (simp only: multitouch_contacts.simps option.distinct if_False if_True not_True_eq_False)

lemma multitouch_contacts_lift:
  assumes "index c = Some i" "value_or (stable c) True" "\<not> value_or (valid c) True"
  shows "multitouch_contacts P (c # cs) s =
           (if i \<le> 2147483647
            then multitouch_contacts P cs
                   (s\<lparr>uinput := uinput s @ [(EV_ABS, ABS_MT_SLOT, int i),
                                               (EV_ABS, ABS_MT_TRACKING_ID, - 1)]\<rparr>)
            else (Inl Narrowing_error, s))"
proof -
  have "multitouch_contacts P (c # cs) s =
          (case lift_multitouch i s of
              (Inl e, s') \<Rightarrow> (Inl e, s')
            | (Inr _, s') \<Rightarrow> multitouch_contacts P cs s')"
    using assms
    by (simp only: multitouch_contacts.simps option.distinct if_False if_True not_True_eq_False
        value_or_def option.case)
  then show ?thesis by (simp add: lift_multitouch_eq del: multitouch_contacts.simps)
qed


lemma multitouch_contacts_frame:
  "multitouch_contacts P cs s = (r, s') \<Longrightarrow>
     \<exists>evs. s' = s\<lparr>uinput := uinput s @ evs\<rparr> \<and>
           set (mt_active evs) \<subseteq> int ` reported_indices cs \<and>
           (\<forall>sl. set (mt_lifted sl evs) \<subseteq> int ` rejected_indices cs) \<and>
           touch_keys evs = []"
proof (induction cs arbitrary: s)
  case Nil
  then show ?case by (intro exI [of _ "[]"]) simp
next
  case (Cons c cs)
  have mono: "int ` reported_indices cs \<subseteq> int ` reported_indices (c # cs)"
    "int ` rejected_indices cs \<subseteq> int ` rejected_indices (c # cs)"
    by (auto simp: reported_indices_Cons rejected_indices_Cons)
  have extend: "\<exists>evs. s' = s\<lparr>uinput := uinput s @ evs\<rparr> \<and>
           set (mt_active evs) \<subseteq> int ` reported_indices (c # cs) \<and>
           (\<forall>sl. set (mt_lifted sl evs) \<subseteq> int ` rejected_indices (c # cs)) \<and>
           touch_keys evs = []"
    if run: "multitouch_contacts P cs (s\<lparr>uinput := uinput s @ block\<rparr>) = (r, s')"
      and act: "set (mt_active block) \<subseteq> int ` reported_indices (c # cs)"
      and lif: "\<And>sl. set (mt_lifted sl block) \<subseteq> int ` rejected_indices (c # cs)"
      and key: "touch_keys block = []"
    for block
  proof -
    from Cons.IH [OF run] obtain evs where
      ih: "s' = s\<lparr>uinput := uinput s @ block\<rparr>\<lparr>uinput := uinput (s\<lparr>uinput := uinput s @ block\<rparr>) @ evs\<rparr>"
          "set (mt_active evs) \<subseteq> int ` reported_indices cs"
          "\<forall>sl. set (mt_lifted sl evs) \<subseteq> int ` rejected_indices cs"
          "touch_keys evs = []"
      by blast
    have 1: "s' = s\<lparr>uinput := uinput s @ (block @ evs)\<rparr>" using ih(1) by simp
    have 2: "set (mt_active (block @ evs)) \<subseteq> int ` reported_indices (c # cs)"
      using act ih(2) mono(1) by (simp only: mt_active_append set_append) blast
    have 3: "set (mt_lifted sl (block @ evs)) \<subseteq> int ` rejected_indices (c # cs)" for sl
      using lif [of sl] ih(3) [rule_format, of "mt_slot sl block"] mono(2)
      by (simp only: mt_lifted_append set_append) blast
    have 4: "touch_keys (block @ evs) = []" using key ih(4) by simp
    from 1 2 3 4 show ?thesis by (intro exI [of _ "block @ evs"] conjI allI)
  qed
  have stop: "\<exists>evs. s' = s\<lparr>uinput := uinput s @ evs\<rparr> \<and>
           set (mt_active evs) \<subseteq> int ` reported_indices (c # cs) \<and>
           (\<forall>sl. set (mt_lifted sl evs) \<subseteq> int ` rejected_indices (c # cs)) \<and>
           touch_keys evs = []"
    if "s' = s"
    using that by (intro exI [of _ "[]"]) simp
  consider (skip) "index c = None \<or> \<not> value_or (stable c) True"
    | (active) i where "index c = Some i" "value_or (stable c) True" "value_or (valid c) True"
    | (invalid) i where "index c = Some i" "value_or (stable c) True" "\<not> value_or (valid c) True"
    by (cases "index c") auto
  then show ?case
  proof cases
    case skip
    from Cons.prems have "multitouch_contacts P cs (s\<lparr>uinput := uinput s @ []\<rparr>) = (r, s')"
      unfolding multitouch_contacts_skip [OF skip] by simp
    then show ?thesis by (rule extend) simp_all
  next
    case active
    then have in_rep: "int i \<in> int ` reported_indices (c # cs)"
      by (simp add: reported_indices_Cons)
    from active have vo: "value_or (index c) 0 = i" by (simp add: value_or_def)
    obtain r1 s1 where e: "emit_multitouch P c s = (r1, s1)" by (cases "emit_multitouch P c s")
    from Cons.prems have run: "(case (r1, s1) of
              (Inl e, s') \<Rightarrow> (Inl e, s')
            | (Inr _, s') \<Rightarrow> multitouch_contacts P cs s') = (r, s')"
      unfolding multitouch_contacts_emit [OF active] e .
    from emit_multitouch_cases [OF e] show ?thesis
    proof (elim disjE conjE exE)
      assume "r1 \<noteq> Inr ()" "s1 = s"
      with run have "s' = s" by (cases r1) auto
      then show ?thesis by (rule stop)
    next
      fix x y angle major minor
      assume r1: "r1 = Inr ()"
        and s1: "s1 = s\<lparr>uinput := uinput s @
                   [(EV_ABS, ABS_MT_SLOT, int (value_or (index c) 0)),
                    (EV_ABS, ABS_MT_TRACKING_ID, int (value_or (index c) 0)),
                    (EV_ABS, ABS_MT_POSITION_X, x), (EV_ABS, ABS_MT_POSITION_Y, y),
                    (EV_ABS, ABS_MT_ORIENTATION, angle), (EV_ABS, ABS_MT_TOUCH_MAJOR, major),
                    (EV_ABS, ABS_MT_TOUCH_MINOR, minor)]\<rparr>"
      from run r1 have "multitouch_contacts P cs s1 = (r, s')" by simp
      then show ?thesis
        unfolding s1 vo by (rule extend) (use in_rep in simp_all)
    qed
  next
    case invalid
    then have in_rej: "int i \<in> int ` rejected_indices (c # cs)"
      by (simp add: rejected_indices_Cons)
    show ?thesis
    proof (cases "i \<le> 2147483647")
      case False
      with Cons.prems have "s' = s"
        unfolding multitouch_contacts_lift [OF invalid] by simp
      then show ?thesis by (rule stop)
    next
      case True
      with Cons.prems have "multitouch_contacts P cs
           (s\<lparr>uinput := uinput s @ [(EV_ABS, ABS_MT_SLOT, int i),
                                       (EV_ABS, ABS_MT_TRACKING_ID, - 1)]\<rparr>) = (r, s')"
        unfolding multitouch_contacts_lift [OF invalid] by simp
      then show ?thesis by (rule extend) (use in_rej in simp_all)
    qed
  qed
qed

lemma lift_each_frame:
  "lift_each is s = (r, s') \<Longrightarrow>
     \<exists>evs. s' = s\<lparr>uinput := uinput s @ evs\<rparr> \<and> mt_active evs = [] \<and>
           (\<forall>sl. set (mt_lifted sl evs) \<subseteq> int ` set is) \<and> touch_keys evs = []"
proof (induction "is" arbitrary: s)
  case Nil
  then show ?case by (intro exI [of _ "[]"]) simp
next
  case (Cons i "is")
  show ?case
  proof (cases "i \<le> 2147483647")
    case False
    with Cons.prems have "s' = s" by (simp add: lift_multitouch_eq)
    then show ?thesis by (intro exI [of _ "[]"]) simp
  next
    case True
    define block where
      "block = [(EV_ABS, ABS_MT_SLOT, int i), (EV_ABS, ABS_MT_TRACKING_ID, - 1)]"
    define s1 where "s1 = s\<lparr>uinput := uinput s @ block\<rparr>"
    from Cons.prems True have "lift_each is s1 = (r, s')"
      by (simp add: lift_multitouch_eq s1_def block_def)
    from Cons.IH [OF this] obtain evs where
      ih: "s' = s1\<lparr>uinput := uinput s1 @ evs\<rparr>" "mt_active evs = []"
          "\<forall>sl. set (mt_lifted sl evs) \<subseteq> int ` set is" "touch_keys evs = []"
      by blast
    have "s' = s\<lparr>uinput := uinput s @ (block @ evs)\<rparr>" using ih(1) by (simp add: s1_def)
    moreover have "mt_active (block @ evs) = []" using ih(2) by (simp add: block_def)
    moreover have "\<forall>sl. set (mt_lifted sl (block @ evs)) \<subseteq> int ` set (i # is)"
      using ih(3) by (auto simp: mt_lifted_append block_def)
    moreover have "touch_keys (block @ evs) = []" using ih(4) by (simp add: block_def)
    ultimately show ?thesis by blast
  qed
qed

lemma process_multitouch_frame:
  assumes "process_multitouch P cs s = (r, s')"
  shows "\<exists>evs. s' = s\<lparr>uinput := uinput s @ evs\<rparr> \<and>
           set (mt_active evs) \<subseteq> int ` reported_indices cs \<and>
           (\<forall>sl. set (mt_lifted sl evs) \<subseteq> int ` (rejected_indices cs \<union> set (m_lift s))) \<and>
           touch_keys evs = []"
proof -
  obtain r1 s1 where m: "multitouch_contacts P cs s = (r1, s1)"
    by (cases "multitouch_contacts P cs s")
  from multitouch_contacts_frame [OF m] obtain e1 where
    e1: "s1 = s\<lparr>uinput := uinput s @ e1\<rparr>" "set (mt_active e1) \<subseteq> int ` reported_indices cs"
        "\<forall>sl. set (mt_lifted sl e1) \<subseteq> int ` rejected_indices cs" "touch_keys e1 = []"
    by blast
  show ?thesis
  proof (cases r1)
    case (Inl e)
    with assms m have "s' = s1" by (simp add: process_multitouch_def)
    moreover have "\<forall>sl. set (mt_lifted sl e1) \<subseteq> int ` (rejected_indices cs \<union> set (m_lift s))"
      using e1(3) by blast
    ultimately show ?thesis using e1(1,2,4) by (intro exI [of _ e1]) simp
  next
    case (Inr u)
    with assms m have "lift_each (m_lift s1) s1 = (r, s')" by (simp add: process_multitouch_def)
    from lift_each_frame [OF this] obtain e2 where
      e2: "s' = s1\<lparr>uinput := uinput s1 @ e2\<rparr>" "mt_active e2 = []"
          "\<forall>sl. set (mt_lifted sl e2) \<subseteq> int ` set (m_lift s1)" "touch_keys e2 = []"
      by blast
    have l: "m_lift s1 = m_lift s" using e1(1) by simp
    have "s' = s\<lparr>uinput := uinput s @ (e1 @ e2)\<rparr>" using e1(1) e2(1) by simp
    moreover have "set (mt_active (e1 @ e2)) \<subseteq> int ` reported_indices cs"
      using e1(2) e2(2) by simp
    moreover have "set (mt_lifted sl (e1 @ e2)) \<subseteq> int ` (rejected_indices cs \<union> set (m_lift s))"
      for sl
      using e1(3) [rule_format, of sl] e2(3) [rule_format, of "mt_slot sl e1"] l
      by (auto simp: mt_lifted_append)
    moreover have "touch_keys (e1 @ e2) = []" using e1(4) e2(4) by simp
    ultimately show ?thesis by (intro exI [of _ "e1 @ e2"]) simp
  qed
qed

subsection \<open>The single-touch pass and the active path of \<open>update\<close>\<close>

lemma singletouch_scan_absent:
  "m_single_index s \<notin> indices cs \<Longrightarrow> singletouch_scan P cs s = (Inr False, s)"
  by (induction cs) (auto simp: indices_Cons split: option.splits)

lemma singletouch_select_frame [simp]:
  "uinput (singletouch_select cs s) = uinput s"
  "m_current (singletouch_select cs s) = m_current s"
  "m_last (singletouch_select cs s) = m_last s"
  "m_lift (singletouch_select cs s) = m_lift s"
  "m_enabled (singletouch_select cs s) = m_enabled s"
  "m_config (singletouch_select cs s) = m_config s"
  by (induction cs) simp_all

lemma process_singletouch_lifts:
  assumes "m_enabled s" and "m_single_index s \<in> set (m_lift s) \<longrightarrow> m_single_index s \<notin> indices cs"
  shows "process_singletouch P cs s =
           (Inr (), singletouch_select cs (s\<lparr>uinput := uinput s @ [(EV_KEY, BTN_TOUCH, 0)]\<rparr>))"
  using assms
  by (auto simp: process_singletouch_def Let_def singletouch_scan_absent lift_singletouch_def
      emit_def)

lemma search_lifted_lift:
  assumes "sorted_wrt (<) (m_current s)"
  shows "set (m_lift (search_lifted cs s)) = set (m_current s) - indices cs"
  using assms
  by (simp add: search_lifted_def Let_def sorted_current_indices set_set_difference)

lemma update_active:
  assumes en: "m_enabled s" and nb: "\<not> is_blocked cs s" and so: "sorted_wrt (<) (m_current s)"
    and u: "update P cs s = (r, s')"
  shows "\<exists>evs. uinput s' = uinput s @ evs \<and>
           set (mt_active evs) \<subseteq> int ` reported_indices cs \<and>
           set (mt_lifted sl evs) \<subseteq> int ` (rejected_indices cs \<union> (set (m_current s) - indices cs)) \<and>
           1 \<notin> set (touch_keys evs) \<and>
           (r = Inr () \<longrightarrow> touch_keys evs = [0])"
proof -
  define s1 where "s1 = search_lifted cs s"
  have s1: "uinput s1 = uinput s" "m_enabled s1" "set (m_lift s1) = set (m_current s) - indices cs"
    using en so by (simp_all add: s1_def search_lifted_lift)
  obtain r2 s2 where pm: "process_multitouch P cs s1 = (r2, s2)"
    by (cases "process_multitouch P cs s1")
  from process_multitouch_frame [OF pm] obtain e1 where
    e1: "s2 = s1\<lparr>uinput := uinput s1 @ e1\<rparr>" "set (mt_active e1) \<subseteq> int ` reported_indices cs"
        "\<forall>sl. set (mt_lifted sl e1) \<subseteq> int ` (rejected_indices cs \<union> set (m_lift s1))"
        "touch_keys e1 = []"
    by blast
  have lif: "set (mt_lifted sl e1) \<subseteq> int ` (rejected_indices cs \<union> (set (m_current s) - indices cs))"
    using e1(3) s1(3) by simp
  show ?thesis
  proof (cases r2)
    case (Inl e)
    with u en nb pm have "r = Inl e" "s' = s2"
      by (simp_all add: update_def Let_def s1_def)
    with e1 s1 lif show ?thesis by (intro exI [of _ e1]) simp
  next
    case (Inr x)
    have s2: "m_enabled s2" "m_single_index s2 \<in> set (m_lift s2) \<longrightarrow> m_single_index s2 \<notin> indices cs"
      using e1(1) s1 by auto
    note ps = process_singletouch_lifts [OF s2, of P]
    from u en nb pm Inr ps
    have r: "r = Inr ()" and s': "s' = sync (singletouch_select cs (s2\<lparr>uinput := uinput s2 @ [(EV_KEY, BTN_TOUCH, 0)]\<rparr>))"
      by (simp_all add: update_def Let_def s1_def)
    let ?evs = "e1 @ [(EV_KEY, BTN_TOUCH, 0), (EV_SYN, SYN_REPORT, 0)]"
    have 1: "uinput s' = uinput s @ ?evs"
      using s' e1(1) s1(1) by (simp add: sync_def emit_def)
    have 2: "set (mt_active ?evs) \<subseteq> int ` reported_indices cs" using e1(2) by simp
    have 3: "set (mt_lifted sl ?evs) \<subseteq> int ` (rejected_indices cs \<union> (set (m_current s) - indices cs))"
      using lif by (simp add: mt_lifted_append)
    have 4: "touch_keys ?evs = [0]" using e1(4) by simp
    from 1 2 3 4 r show ?thesis by (intro exI [of _ ?evs]) simp
  qed
qed

lemma update_blocked_events:
  assumes en: "m_enabled s" and b: "is_blocked cs s" and u: "update P cs s = (r, s')"
  shows "\<exists>evs. uinput s' = uinput s @ evs \<and> mt_active evs = [] \<and> 1 \<notin> set (touch_keys evs)"
proof -
  obtain r1 s2 where l: "lift_all (search_lifted cs s) = (r1, s2)"
    by (cases "lift_all (search_lifted cs s)")
  from lift_all_frame [OF l] obtain evs where
    e: "s2 = (search_lifted cs s)\<lparr>uinput := uinput (search_lifted cs s) @ evs\<rparr>"
       "mt_active evs = []" "1 \<notin> set (touch_keys evs)"
    by blast
  show ?thesis
  proof (cases r1)
    case (Inl x)
    with u en b l have "s' = s2" by (simp add: update_def Let_def)
    with e show ?thesis by (intro exI [of _ evs]) simp
  next
    case (Inr x)
    with u en b l have "s' = sync s2" by (simp add: update_def Let_def)
    with e show ?thesis
      by (intro exI [of _ "evs @ [(EV_SYN, SYN_REPORT, 0)]"]) (simp add: sync_def emit_def)
  qed
qed





subsection \<open>Coordinate inversion\<close>

lemma c_round_integral: "of_int \<lfloor>c_round v\<rfloor> = c_round v"
  by (simp add: c_round_def)

text \<open>
  \<open>gsl::narrow<i32>(std::round(w))\<close> in binary64 returns \<open>n\<close> exactly when \<open>w\<close> is finite, \<open>n\<close>
  is \<open>w\<close> rounded to the nearest integer, halfway cases away from zero, and that integer
  fits \<open>i32\<close>.
\<close>

lemma round_narrow_binary64_iff:
  "round_narrow (binary64_platform mx my d maxc minc) w = Inr n \<longleftrightarrow>
     (\<exists>v. w = Finite v \<and> real_of_int n = c_round v \<and>
          - 2147483648 \<le> c_round v \<and> c_round v \<le> 2147483647)"
proof (cases w)
  case (Finite v)
  have eq: "\<lfloor>c_round v\<rfloor> = n \<longleftrightarrow> real_of_int n = c_round v"
    using c_round_integral [of v] by (metis floor_of_int)
  have narrow: "f64_narrow_i32 (f64_round (Finite v)) =
      (if - 2147483648 \<le> c_round v \<and> c_round v \<le> 2147483647 then Some \<lfloor>c_round v\<rfloor> else None)"
    by (simp add: c_round_integral)
  have "round_narrow (binary64_platform mx my d maxc minc) w = Inr n \<longleftrightarrow>
      f64_narrow_i32 (f64_round (Finite v)) = Some n"
    by (simp add: Finite round_narrow_def binary64_platform_def split: option.splits)
  also have "\<dots> \<longleftrightarrow> real_of_int n = c_round v \<and>
      - 2147483648 \<le> c_round v \<and> c_round v \<le> 2147483647"
    unfolding narrow using eq by auto
  finally show ?thesis by (simp add: Finite)
qed (simp_all add: round_narrow_def binary64_platform_def)

lemma round_narrow_binary64:
  assumes "round_narrow (binary64_platform mx my d maxc minc) w = Inr n"
  shows "\<exists>v. w = Finite v \<and> real_of_int n = c_round v"
  using assms unfolding round_narrow_binary64_iff by blast

text \<open>
  Claim C7. With binary64 arithmetic, every multi-touch contact update that
  \<open>emit_multitouch\<close> emits consists of the slot, the tracking id, X, Y, orientation, major
  and minor. The X value is the product of the coordinate and \<open>IPTS_MAX_X\<close>, rounded to
  the nearest integer (halfway cases away from zero), where the coordinate is \<open>1 - mean.x\<close>
  when \<open>invert_x\<close> is set and \<open>mean.x\<close> otherwise; likewise for Y with \<open>invert_y\<close> and
  \<open>IPTS_MAX_Y\<close>. The orientation value is the rounded product of 180 and \<open>1 - orientation\<close>
  when exactly one of \<open>invert_x\<close> and \<open>invert_y\<close> is set, and of 180 and \<open>orientation\<close>
  otherwise. Differences and products are those of binary64, each rounded to nearest.
\<close>

theorem emit_multitouch_inversion:
  assumes "emit_multitouch (binary64_platform mx my d maxc minc) c s = (Inr (), s')"
  shows "\<exists>x y angle major minor wx wy wa.
           emitted s s' =
             [(EV_ABS, ABS_MT_SLOT, int (value_or (index c) 0)),
              (EV_ABS, ABS_MT_TRACKING_ID, int (value_or (index c) 0)),
              (EV_ABS, ABS_MT_POSITION_X, x), (EV_ABS, ABS_MT_POSITION_Y, y),
              (EV_ABS, ABS_MT_ORIENTATION, angle), (EV_ABS, ABS_MT_TOUCH_MAJOR, major),
              (EV_ABS, ABS_MT_TOUCH_MINOR, minor)] \<and>
           f64_times_int (if invert_x (m_config s) then f64_one_minus (fst (mean c))
                          else fst (mean c)) mx = Finite wx \<and>
           real_of_int x = c_round wx \<and>
           f64_times_int (if invert_y (m_config s) then f64_one_minus (snd (mean c))
                          else snd (mean c)) my = Finite wy \<and>
           real_of_int y = c_round wy \<and>
           f64_times_int (if invert_x (m_config s) \<noteq> invert_y (m_config s)
                          then f64_one_minus (orientation c) else orientation c) 180 = Finite wa \<and>
           real_of_int angle = c_round wa"
proof -
  let ?P = "binary64_platform mx my d maxc minc"
  have f: "one_minus ?P = f64_one_minus" "times_int ?P = f64_times_int"
    "IPTS_MAX_X ?P = mx" "IPTS_MAX_Y ?P = my"
    by (simp_all add: binary64_platform_def)
  from emit_multitouch_cases [OF assms] obtain x y angle major minor where
    x: "round_narrow ?P (f64_times_int (if invert_x (m_config s) then f64_one_minus (fst (mean c))
                                        else fst (mean c)) mx) = Inr x"
    and y: "round_narrow ?P (f64_times_int (if invert_y (m_config s) then f64_one_minus (snd (mean c))
                                            else snd (mean c)) my) = Inr y"
    and a: "round_narrow ?P (f64_times_int (if invert_x (m_config s) \<noteq> invert_y (m_config s)
                                            then f64_one_minus (orientation c) else orientation c) 180)
              = Inr angle"
    and s': "s' = s\<lparr>uinput := uinput s @
             [(EV_ABS, ABS_MT_SLOT, int (value_or (index c) 0)),
              (EV_ABS, ABS_MT_TRACKING_ID, int (value_or (index c) 0)),
              (EV_ABS, ABS_MT_POSITION_X, x), (EV_ABS, ABS_MT_POSITION_Y, y),
              (EV_ABS, ABS_MT_ORIENTATION, angle), (EV_ABS, ABS_MT_TOUCH_MAJOR, major),
              (EV_ABS, ABS_MT_TOUCH_MINOR, minor)]\<rparr>"
    unfolding f by blast
  from round_narrow_binary64 [OF x] obtain wx where
    wx: "f64_times_int (if invert_x (m_config s) then f64_one_minus (fst (mean c))
                        else fst (mean c)) mx = Finite wx" "real_of_int x = c_round wx"
    by blast
  from round_narrow_binary64 [OF y] obtain wy where
    wy: "f64_times_int (if invert_y (m_config s) then f64_one_minus (snd (mean c))
                        else snd (mean c)) my = Finite wy" "real_of_int y = c_round wy"
    by blast
  from round_narrow_binary64 [OF a] obtain wa where
    wa: "f64_times_int (if invert_x (m_config s) \<noteq> invert_y (m_config s)
                        then f64_one_minus (orientation c) else orientation c) 180 = Finite wa"
        "real_of_int angle = c_round wa"
    by blast
  have "emitted s s' =
             [(EV_ABS, ABS_MT_SLOT, int (value_or (index c) 0)),
              (EV_ABS, ABS_MT_TRACKING_ID, int (value_or (index c) 0)),
              (EV_ABS, ABS_MT_POSITION_X, x), (EV_ABS, ABS_MT_POSITION_Y, y),
              (EV_ABS, ABS_MT_ORIENTATION, angle), (EV_ABS, ABS_MT_TOUCH_MAJOR, major),
              (EV_ABS, ABS_MT_TOUCH_MINOR, minor)]"
    using s' by (simp add: emitted_def)
  with wx wy wa show ?thesis by blast
qed

text \<open>
  With \<open>invert_x\<close> alone and \<open>IPTS_MAX_X = 1000\<close>, the contact at mean \<open>(0.25, 0.6)\<close> with
  orientation 0.25 is emitted with X = 750 and the orientation 135, that of \<open>1 - 0.25\<close>.
  Without inversion, the contact at \<open>x = 0.0045\<close> is emitted with X = 5: the binary64
  number nearest 0.0045 lies below it, its product with 1000 is rounded to 4.5, and
  \<open>std::round\<close> takes the halfway case away from zero.
\<close>

theorem emit_multitouch_inversion_witness:
  "sample_platform = binary64_platform 1000 1000 1000 finite_max finite_min \<and>
   invert_x invert_x_config \<and> \<not> invert_y invert_x_config \<and>
   mean (sample_contact (Some 3) None) = (rne (1 / 4), rne (3 / 5)) \<and>
   orientation (sample_contact (Some 3) None) = rne (1 / 4) \<and>
   fst (emit_multitouch sample_platform (sample_contact (Some 3) None) (TouchDevice invert_x_config))
     = Inr () \<and>
   emitted (TouchDevice invert_x_config)
     (snd (emit_multitouch sample_platform (sample_contact (Some 3) None)
             (TouchDevice invert_x_config))) =
     [(EV_ABS, ABS_MT_SLOT, 3), (EV_ABS, ABS_MT_TRACKING_ID, 3),
      (EV_ABS, ABS_MT_POSITION_X, 750), (EV_ABS, ABS_MT_POSITION_Y, 600),
      (EV_ABS, ABS_MT_ORIENTATION, 135), (EV_ABS, ABS_MT_TOUCH_MAJOR, 100),
      (EV_ABS, ABS_MT_TOUCH_MINOR, 50)] \<and>
   \<not> invert_x sample_config \<and> \<not> invert_y sample_config \<and>
   fst (mean halfway_contact) = rne (9 / 2000) \<and>
   fst (emit_multitouch sample_platform halfway_contact (TouchDevice sample_config)) = Inr () \<and>
   emitted (TouchDevice sample_config)
     (snd (emit_multitouch sample_platform halfway_contact (TouchDevice sample_config))) =
     [(EV_ABS, ABS_MT_SLOT, 7), (EV_ABS, ABS_MT_TRACKING_ID, 7),
      (EV_ABS, ABS_MT_POSITION_X, 5), (EV_ABS, ABS_MT_POSITION_Y, 600),
      (EV_ABS, ABS_MT_ORIENTATION, 45), (EV_ABS, ABS_MT_TOUCH_MAJOR, 100),
      (EV_ABS, ABS_MT_TOUCH_MINOR, 50)]"
proof -
  let ?P = "binary64_platform 1000 1000 1000 finite_max finite_min"
  let ?c = "sample_contact (Some 3) None"
  let ?s = "TouchDevice invert_x_config"
  let ?t = "TouchDevice sample_config"
  obtain r s' where e: "emit_multitouch ?P ?c ?s = (r, s')"
    by (cases "emit_multitouch ?P ?c ?s")
  then have r: "r = Inr ()" by (auto simp: touch_eval)
  obtain q t' where h: "emit_multitouch ?P halfway_contact ?t = (q, t')"
    by (cases "emit_multitouch ?P halfway_contact ?t")
  then have q: "q = Inr ()" by (auto simp: touch_eval)
  have rest: "emitted ?s s' ! 3 = (EV_ABS, ABS_MT_POSITION_Y, 600)"
    "emitted ?s s' ! 5 = (EV_ABS, ABS_MT_TOUCH_MAJOR, 100)"
    "emitted ?s s' ! 6 = (EV_ABS, ABS_MT_TOUCH_MINOR, 50)"
    using e r by (auto simp: touch_eval)
  have rest': "emitted ?t t' ! 3 = (EV_ABS, ABS_MT_POSITION_Y, 600)"
    "emitted ?t t' ! 4 = (EV_ABS, ABS_MT_ORIENTATION, 45)"
    "emitted ?t t' ! 5 = (EV_ABS, ABS_MT_TOUCH_MAJOR, 100)"
    "emitted ?t t' ! 6 = (EV_ABS, ABS_MT_TOUCH_MINOR, 50)"
    using h q by (auto simp: touch_eval)
  from emit_multitouch_inversion [OF e [unfolded r]] obtain x y angle major minor wx wy wa where
    ev: "emitted ?s s' =
             [(EV_ABS, ABS_MT_SLOT, int (value_or (index ?c) 0)),
              (EV_ABS, ABS_MT_TRACKING_ID, int (value_or (index ?c) 0)),
              (EV_ABS, ABS_MT_POSITION_X, x), (EV_ABS, ABS_MT_POSITION_Y, y),
              (EV_ABS, ABS_MT_ORIENTATION, angle), (EV_ABS, ABS_MT_TOUCH_MAJOR, major),
              (EV_ABS, ABS_MT_TOUCH_MINOR, minor)]"
    and x: "f64_times_int (if invert_x (m_config ?s) then f64_one_minus (fst (mean ?c))
                           else fst (mean ?c)) 1000 = Finite wx" "real_of_int x = c_round wx"
    and a: "f64_times_int (if invert_x (m_config ?s) \<noteq> invert_y (m_config ?s)
                           then f64_one_minus (orientation ?c) else orientation ?c) 180 = Finite wa"
           "real_of_int angle = c_round wa"
    by blast
  from x have "wx = 750" by (simp add: touch_eval)
  with x(2) have x750: "x = 750" by (simp add: c_round_def)
  from a have "wa = 135" by (simp add: touch_eval)
  with a(2) have a135: "angle = 135" by (simp add: c_round_def)
  from rest ev have "y = 600" "major = 100" "minor = 50" by simp_all
  with ev x750 a135 have first: "emitted ?s s' =
     [(EV_ABS, ABS_MT_SLOT, 3), (EV_ABS, ABS_MT_TRACKING_ID, 3),
      (EV_ABS, ABS_MT_POSITION_X, 750), (EV_ABS, ABS_MT_POSITION_Y, 600),
      (EV_ABS, ABS_MT_ORIENTATION, 135), (EV_ABS, ABS_MT_TOUCH_MAJOR, 100),
      (EV_ABS, ABS_MT_TOUCH_MINOR, 50)]"
    by (simp add: sample_contact_def value_or_def)
  from emit_multitouch_inversion [OF h [unfolded q]] obtain x y angle major minor wx wy wa where
    ev': "emitted ?t t' =
             [(EV_ABS, ABS_MT_SLOT, int (value_or (index halfway_contact) 0)),
              (EV_ABS, ABS_MT_TRACKING_ID, int (value_or (index halfway_contact) 0)),
              (EV_ABS, ABS_MT_POSITION_X, x), (EV_ABS, ABS_MT_POSITION_Y, y),
              (EV_ABS, ABS_MT_ORIENTATION, angle), (EV_ABS, ABS_MT_TOUCH_MAJOR, major),
              (EV_ABS, ABS_MT_TOUCH_MINOR, minor)]"
    and x': "f64_times_int (if invert_x (m_config ?t) then f64_one_minus (fst (mean halfway_contact))
                            else fst (mean halfway_contact)) 1000 = Finite wx"
            "real_of_int x = c_round wx"
    by blast
  from x' have "wx = 9 / 2" by (simp add: touch_eval)
  with x'(2) have x5: "x = 5" by (simp add: c_round_def)
  from rest' ev' have "y = 600" "angle = 45" "major = 100" "minor = 50" by simp_all
  with ev' x5 have second: "emitted ?t t' =
     [(EV_ABS, ABS_MT_SLOT, 7), (EV_ABS, ABS_MT_TRACKING_ID, 7),
      (EV_ABS, ABS_MT_POSITION_X, 5), (EV_ABS, ABS_MT_POSITION_Y, 600),
      (EV_ABS, ABS_MT_ORIENTATION, 45), (EV_ABS, ABS_MT_TOUCH_MAJOR, 100),
      (EV_ABS, ABS_MT_TOUCH_MINOR, 50)]"
    by (simp add: halfway_contact_def sample_contact_def value_or_def)
  have cfg: "invert_x invert_x_config" "\<not> invert_y invert_x_config"
    "\<not> invert_x sample_config" "\<not> invert_y sample_config"
    "mean ?c = (rne (1 / 4), rne (3 / 5))" "orientation ?c = rne (1 / 4)"
    "fst (mean halfway_contact) = rne (9 / 2000)"
    by (simp_all add: invert_x_config_def sample_config_def sample_contact_def halfway_contact_def)
  from first second e h r q cfg show ?thesis
    by (simp add: sample_platform_def)
qed

subsection \<open>Active ids and lifted slots of one frame\<close>




subsection \<open>The single-touch pointer\<close>

text \<open>
  \<open>process_singletouch\<close> looks for the selected contact only when its index is in the lift
  set, that is, when no contact of the frame carries it. So, in an \<open>update\<close>, the scan
  never finds it, and no single-touch down is ever emitted.
\<close>

lemma update_never_touch_down:
  assumes so: "sorted_wrt (<) (m_current s)" and u: "update P cs s = (r, s')"
  shows "1 \<notin> set (touch_keys (emitted s s'))"
proof (cases "m_enabled s")
  case False
  with u show ?thesis by (simp add: update_def emitted_def)
next
  case en: True
  show ?thesis
  proof (cases "is_blocked cs s")
    case True
    from update_blocked_events [OF en True u] show ?thesis
      by (auto simp: emitted_def)
  next
    case False
    from update_active [OF en False so u, of None] show ?thesis
      by (auto simp: emitted_def)
  qed
qed

text \<open>
  Claim C6 does not hold of the code. Ten frames, each with the contact 3 present, valid
  and stable, on a fresh enabled device: every frame emits a single-touch lift and none a
  single-touch down.
\<close>

theorem single_touch_never_down:
  "fst (update_frames sample_platform steady_frames (TouchDevice sample_config)) = Inr () \<and>
   touch_keys (uinput (snd (update_frames sample_platform steady_frames (TouchDevice sample_config))))
     = [0, 0, 0, 0, 0, 0, 0, 0, 0, 0]"
  by (simp add: touch_eval)

subsection \<open>Contacts without an index\<close>

text \<open>
  The tracker, the loop of the multi-touch pass and the scan of the single-touch pass skip
  a contact without an index: dropping such contacts from the frame changes nothing for
  them.
\<close>

lemma current_indices_index_less:
  "current_indices (filter (\<lambda>c. index c \<noteq> None) cs) acc = current_indices cs acc"
  by (induction cs arbitrary: acc) (auto split: option.splits)

lemma index_less_ignored:
  "search_lifted (filter (\<lambda>c. index c \<noteq> None) cs) s = search_lifted cs s"
  "multitouch_contacts P (filter (\<lambda>c. index c \<noteq> None) cs) s = multitouch_contacts P cs s"
  "singletouch_scan P (filter (\<lambda>c. index c \<noteq> None) cs) s = singletouch_scan P cs s"
proof -
  show "search_lifted (filter (\<lambda>c. index c \<noteq> None) cs) s = search_lifted cs s"
    by (simp only: search_lifted_def current_indices_index_less)
  show "multitouch_contacts P (filter (\<lambda>c. index c \<noteq> None) cs) s = multitouch_contacts P cs s"
  proof (induction cs arbitrary: s)
    case Nil
    show ?case by simp
  next
    case (Cons c cs)
    show ?case
    proof (cases "index c = None")
      case True
      then show ?thesis using Cons.IH by (simp add: multitouch_contacts_skip)
    next
      case False
      then have "filter (\<lambda>c. index c \<noteq> None) (c # cs) = c # filter (\<lambda>c. index c \<noteq> None) cs"
        by simp
      then show ?thesis
        by (simp only: multitouch_contacts.simps Cons.IH)
    qed
  qed
  show "singletouch_scan P (filter (\<lambda>c. index c \<noteq> None) cs) s = singletouch_scan P cs s"
    by (induction cs) auto
qed

text \<open>
  Claim C4 does not hold of the code. After a frame with the contact 5, the single-touch
  pointer is at 5. A following frame whose only contact has no index moves it to 0; the
  same frame without that contact leaves it at 5.
\<close>

theorem index_less_contact_moves_pointer:
  "index (sample_contact None None) = None \<and>
   m_single_index (snd (update_frames sample_platform [frame_5] (TouchDevice sample_config))) = 5 \<and>
   m_single_index (snd (update_frames sample_platform [frame_5, frame_no_index]
                          (TouchDevice sample_config))) = 0 \<and>
   m_single_index (snd (update_frames sample_platform [frame_5, []]
                          (TouchDevice sample_config))) = 5"
  by (simp add: touch_eval)

end
